theory Spec2Isabelle
  imports Main
begin

section \<open>The real-time client of the monitoring dashboard\<close>

text \<open>
  This theory embeds \<^verbatim>\<open>frontend/src/services/websocket.service.js\<close> (the snapshot
  with the grace period) and the log buffer of
  \<^verbatim>\<open>frontend/src/components/dashboard/LogsViewer.jsx\<close>.

  The service is one object whose methods and socket handlers mutate its fields; the
  model passes that object explicitly. The browser around it (clock, timer table, sockets,
  promises returned by \<^verbatim>\<open>connect()\<close>) is part of the same record, so that a handler
  is a function from world to world. Everything the service does to the outside
  (subscriber calls, \<^verbatim>\<open>ws.send\<close>, \<^verbatim>\<open>ws.close\<close>, a few console lines) is appended
  to a time-stamped trace. The event loop is single-threaded: one event is handled to
  completion before the next.
\<close>

subsection \<open>JavaScript values, events and subscribers\<close>

text \<open>
  A JavaScript value as far as the code looks into it. Numbers are kept as their literal
  text: the code never computes with them. A \<^verbatim>\<open>BigInt\<close> stands for the values that
  \<^verbatim>\<open>JSON.stringify\<close> refuses.
\<close>

datatype jsval =
    JUndefined
  | JNull
  | JBool bool
  | JNum string
  | JBigInt string
  | JStr string
  | JArr "jsval list"
  | JObj "(string \<times> jsval) list"

text \<open>What a subscriber receives: the DOM event of the socket, or a value.\<close>

datatype payload =
    OpenEv
  | CloseEv nat string
  | ErrorEv
  | Value jsval

text \<open>
  A subscriber is a JavaScript function: it has an identity (\<^verbatim>\<open>indexOf\<close> compares
  references) and it may throw on a payload. What it does to the view is outside the
  service; subscribers of the application only set view state.
\<close>

datatype listener = Listener (lid: nat) (throws_on: "payload \<Rightarrow> bool")

text \<open>An exception: thrown by the subscriber with that id, or by a built-in.\<close>

datatype exn = ListenerExn nat | TypeError

text \<open>
  What the service does to the outside, as entries of the trace:
  \<^item> \<open>Emit\<close>: \<^verbatim>\<open>emitEvent(event, data)\<close> is called (the code calls it with the six
    names of the constructor only);
  \<^item> \<open>Call\<close>: the subscriber with that id is called with the payload;
  \<^item> \<open>ConsoleError\<close>: the \<^verbatim>\<open>console.error\<close> of a \<^verbatim>\<open>catch\<close>, with what was caught;
  \<^item> \<open>WsSend\<close>, \<open>WsClose\<close>: \<^verbatim>\<open>send(text)\<close> and \<^verbatim>\<open>close(...)\<close> on the socket with
    that number, the latter with its arguments if any;
  \<^item> \<open>AttemptingReconnection\<close>: the console line of the reconnection timer when it
    goes on to \<^verbatim>\<open>connect()\<close>, with the counter and the maximum;
  \<^item> \<open>SetupFailed\<close>: the \<^verbatim>\<open>catch\<close> of \<^verbatim>\<open>connect()\<close>, which rejects the promise;
  \<^item> \<open>UnknownEvent\<close>: the warning of \<^verbatim>\<open>on\<close> for a name that is no property at all.
  The other console lines are left out.
\<close>

datatype action =
    Emit string payload
  | Call nat payload
  | ConsoleError string exn
  | WsSend nat string
  | WsClose nat "(nat \<times> string) option"
  | AttemptingReconnection int int
  | SetupFailed
  | UnknownEvent string

text \<open>
  A socket, numbered in the order of creation: its \<^verbatim>\<open>readyState\<close>, and the state of
  the promise of the \<^verbatim>\<open>connect()\<close> call that made it. Only the handlers of this socket
  hold the \<^verbatim>\<open>resolve\<close> and \<^verbatim>\<open>reject\<close> of that promise.
\<close>

datatype ready_state = CONNECTING | OPEN | CLOSING | CLOSED

datatype pstate = Pending | Resolved | Rejected

record sock =
  readyState :: ready_state
  promise :: pstate

text \<open>
  A pending timer: its id, the time from which it may fire, its period if it is an
  interval, and which of the three callbacks of the service it runs (the grace-period
  callback of \<^verbatim>\<open>startDisconnectionTimer\<close>, the one of \<^verbatim>\<open>scheduleReconnection\<close>, the
  one of \<^verbatim>\<open>startHeartbeat\<close>).
\<close>

datatype callback = GraceExpired | ReconnectDue | HeartbeatPing

record timer =
  tid :: nat
  due :: nat
  every :: "nat option"
  cb :: callback

text \<open>What \<^verbatim>\<open>JSON.stringify\<close> does: it throws, returns \<^verbatim>\<open>undefined\<close>, or returns a text.\<close>

datatype stringified = Throws | Undefined | Str string

text \<open>The argument of \<^verbatim>\<open>send\<close>: a string (\<^verbatim>\<open>typeof message === 'string'\<close>) or not.\<close>

datatype message = Text string | NonText jsval

text \<open>
  \<^verbatim>\<open>api.config.js\<close>: each numeric setting is
  \<^verbatim>\<open>parseInt(import.meta.env.X) || default\<close>, an integer that is not zero.
  \<^verbatim>\<open>VITE_WS_GRACE_PERIOD\<close> is read by the service itself; \<open>None\<close> is \<^verbatim>\<open>NaN\<close>.
\<close>

record api_config =
  MAX_RECONNECT_ATTEMPTS :: int
  RECONNECT_INTERVAL :: int
  PING_INTERVAL :: int
  VITE_WS_GRACE_PERIOD :: "int option"
  WEBSOCKET_ENABLED :: bool

definition HEALTH_CHECK :: string where
  "HEALTH_CHECK = ''health_check''"

text \<open>
  Built-ins of the JavaScript platform that the code calls and that are not code of the
  repository: \<^verbatim>\<open>JSON.parse\<close> (\<open>None\<close>: it throws \<^verbatim>\<open>SyntaxError\<close>),
  \<^verbatim>\<open>JSON.stringify\<close>, and whether \<^verbatim>\<open>new WebSocket(url)\<close> accepts the configured
  URL (it throws on a malformed one, every time).
\<close>

record platform =
  JSON_parse :: "string \<Rightarrow> jsval option"
  JSON_stringify :: "jsval \<Rightarrow> stringified"
  url_accepted :: bool

subsection \<open>The service object and its world\<close>

text \<open>
  The fields of the class, from \<open>ws\<close> (the number of the socket at hand, or \<^verbatim>\<open>null\<close>)
  to \<open>listeners\<close>; then the configuration and the platform, which never change; then
  the world: the clock in milliseconds, the pending timers, the next timer id, the
  sockets made so far, and the trace.
\<close>

record ws_service =
  ws :: "nat option"
  reconnectAttempts :: int
  maxReconnectAttempts :: int
  reconnectInterval :: int
  isManualDisconnect :: bool
  pingInterval :: "nat option"
  pingIntervalTime :: int
  disconnectionTimer :: "nat option"
  gracePeriod :: int
  stableConnectionStatus :: string
  listeners :: "string \<rightharpoonup> listener list"
  config :: api_config
  builtins :: platform
  now :: nat
  timers :: "timer list"
  next_timer :: nat
  socks :: "sock list"
  trace :: "(nat \<times> action) list"

definition constructor :: "api_config \<Rightarrow> platform \<Rightarrow> ws_service" where
  "constructor c p =
     \<lparr> ws = None,
       reconnectAttempts = 0,
       maxReconnectAttempts = MAX_RECONNECT_ATTEMPTS c,
       reconnectInterval = RECONNECT_INTERVAL c,
       isManualDisconnect = False,
       pingInterval = None,
       pingIntervalTime = PING_INTERVAL c,
       disconnectionTimer = None,
       gracePeriod = (case VITE_WS_GRACE_PERIOD c of
                         None \<Rightarrow> 10000
                       | Some g \<Rightarrow> if g = 0 then 10000 else g),
       stableConnectionStatus = ''disconnected'',
       listeners = [''open'' \<mapsto> [], ''close'' \<mapsto> [], ''error'' \<mapsto> [], ''message'' \<mapsto> [],
                    ''healthCheck'' \<mapsto> [], ''stableStatusChange'' \<mapsto> []],
       config = c,
       builtins = p,
       now = 0,
       timers = [],
       next_timer = 1,
       socks = [],
       trace = [] \<rparr>"

text \<open>An entry of the trace, stamped with the clock.\<close>

definition logged :: "action \<Rightarrow> ws_service \<Rightarrow> ws_service" where
  "logged a s = s\<lparr>trace := trace s @ [(now s, a)]\<rparr>"

subsection \<open>The emitter\<close>

text \<open>
  \<^verbatim>\<open>forEach\<close> runs the callback on each element in order; an exception leaving the
  callback ends the iteration and leaves \<^verbatim>\<open>forEach\<close>. The exception, if any, is the
  first component of the result.
\<close>

fun forEach :: "('a \<Rightarrow> 's \<Rightarrow> exn option \<times> 's) \<Rightarrow> 'a list \<Rightarrow> 's \<Rightarrow> exn option \<times> 's" where
  "forEach f [] s = (None, s)"
| "forEach f (x # xs) s =
     (case f x s of
        (Some e, s') \<Rightarrow> (Some e, s')
      | (None, s') \<Rightarrow> forEach f xs s')"

text \<open>Calling a subscriber: the call is recorded, and the subscriber may throw.\<close>

definition call_listener :: "listener \<Rightarrow> payload \<Rightarrow> ws_service \<Rightarrow> exn option \<times> ws_service" where
  "call_listener l d s =
     (if throws_on l d then Some (ListenerExn (lid l)) else None, logged (Call (lid l) d) s)"

text \<open>\<^verbatim>\<open>try { callback(data); } catch (error) { console.error(...); }\<close>\<close>

definition guarded :: "string \<Rightarrow> payload \<Rightarrow> listener \<Rightarrow> ws_service \<Rightarrow> exn option \<times> ws_service" where
  "guarded event d l s =
     (case call_listener l d s of
        (Some e, s') \<Rightarrow> (None, logged (ConsoleError event e) s')
      | (None, s') \<Rightarrow> (None, s'))"

text \<open>
  \<^verbatim>\<open>this.listeners\<close> is a plain object, so \<^verbatim>\<open>this.listeners[event]\<close> finds the own
  properties, which the map \<open>listeners\<close> holds, and after them the properties that every
  object inherits from \<^verbatim>\<open>Object.prototype\<close>: those of the standard and of its Annex B.
  The inherited ones are functions, and \<^verbatim>\<open>__proto__\<close> is the prototype itself: all of
  them truthy, none with a method \<^verbatim>\<open>forEach\<close>, \<^verbatim>\<open>push\<close> or \<^verbatim>\<open>indexOf\<close>, so that
  calling one of these on them throws a \<^verbatim>\<open>TypeError\<close>.
\<close>

definition Object_prototype :: "string list" where
  "Object_prototype =
     [''constructor'', ''__proto__'', ''hasOwnProperty'', ''isPrototypeOf'',
      ''propertyIsEnumerable'', ''toLocaleString'', ''toString'', ''valueOf'',
      ''__defineGetter__'', ''__defineSetter__'', ''__lookupGetter__'', ''__lookupSetter__'']"

text \<open>
  \<^verbatim>\<open>emitEvent\<close>, with the exception that leaves it, if any: \<^verbatim>\<open>forEach\<close> is outside the
  \<^verbatim>\<open>try\<close>, so for an inherited name the \<^verbatim>\<open>TypeError\<close> goes to the caller. The handlers
  emit the six names of the constructor only, none of them inherited, and use
  \<open>emitEvent\<close>, the world alone.
\<close>

definition emitEvent_try :: "string \<Rightarrow> payload \<Rightarrow> ws_service \<Rightarrow> exn option \<times> ws_service" where
  "emitEvent_try event d s =
     (case listeners s event of
        Some cbs \<Rightarrow> forEach (guarded event d) cbs (logged (Emit event d) s)
      | None \<Rightarrow>
          if event \<in> set Object_prototype then (Some TypeError, logged (Emit event d) s)
          else (None, logged (Emit event d) s))"

definition emitEvent :: "string \<Rightarrow> payload \<Rightarrow> ws_service \<Rightarrow> ws_service" where
  "emitEvent event d s = snd (emitEvent_try event d s)"

text \<open>What one emission appends to the trace, at time \<open>t\<close> with the subscribers \<open>ls\<close>.\<close>

definition invocation :: "string \<Rightarrow> payload \<Rightarrow> listener \<Rightarrow> action list" where
  "invocation event d l =
     (if throws_on l d then [Call (lid l) d, ConsoleError event (ListenerExn (lid l))]
      else [Call (lid l) d])"

definition deliveries ::
  "nat \<Rightarrow> (string \<rightharpoonup> listener list) \<Rightarrow> string \<Rightarrow> payload \<Rightarrow> (nat \<times> action) list" where
  "deliveries t ls event d =
     map (Pair t)
       (Emit event d #
        (case ls event of
           None \<Rightarrow> []
         | Some cbs \<Rightarrow> concat (map (invocation event d) cbs)))"

definition calls :: "(nat \<times> action) list \<Rightarrow> (nat \<times> payload) list" where
  "calls tr = concat (map (\<lambda>(t, a). case a of Call i d \<Rightarrow> [(i, d)] | _ \<Rightarrow> []) tr)"

subsection \<open>Timers of the event loop\<close>

text \<open>
  \<^verbatim>\<open>setTimeout\<close> and \<^verbatim>\<open>setInterval\<close> enter a timer in the table and return its id (a
  positive number, so that \<^verbatim>\<open>if (this.pingInterval)\<close> tests for \<^verbatim>\<open>null\<close>); a
  negative delay counts as zero. \<^verbatim>\<open>clearTimeout\<close> and \<^verbatim>\<open>clearInterval\<close> remove the
  entry; on an id that is not pending they do nothing.
\<close>

definition setTimeout :: "callback \<Rightarrow> int \<Rightarrow> ws_service \<Rightarrow> nat \<times> ws_service" where
  "setTimeout f delay s =
     (next_timer s,
      s\<lparr>timers := timers s @ [\<lparr>tid = next_timer s, due = now s + nat delay, every = None, cb = f\<rparr>],
        next_timer := Suc (next_timer s)\<rparr>)"

definition setInterval :: "callback \<Rightarrow> int \<Rightarrow> ws_service \<Rightarrow> nat \<times> ws_service" where
  "setInterval f delay s =
     (next_timer s,
      s\<lparr>timers := timers s @
          [\<lparr>tid = next_timer s, due = now s + nat delay, every = Some (nat delay), cb = f\<rparr>],
        next_timer := Suc (next_timer s)\<rparr>)"

definition without :: "nat option \<Rightarrow> timer list \<Rightarrow> timer list" where
  "without io ts = (case io of None \<Rightarrow> ts | Some i \<Rightarrow> filter (\<lambda>t. tid t \<noteq> i) ts)"

definition clearTimeout :: "nat \<Rightarrow> ws_service \<Rightarrow> ws_service" where
  "clearTimeout i s = s\<lparr>timers := filter (\<lambda>t. tid t \<noteq> i) (timers s)\<rparr>"

definition clearInterval :: "nat \<Rightarrow> ws_service \<Rightarrow> ws_service" where
  "clearInterval i s = s\<lparr>timers := filter (\<lambda>t. tid t \<noteq> i) (timers s)\<rparr>"

subsection \<open>The transport\<close>

definition ready_of :: "sock list \<Rightarrow> nat \<Rightarrow> ready_state option" where
  "ready_of ss i = (if i < length ss then Some (readyState (ss ! i)) else None)"

definition set_ready :: "nat \<Rightarrow> ready_state \<Rightarrow> ws_service \<Rightarrow> ws_service" where
  "set_ready i r s = s\<lparr>socks := (socks s)[i := (socks s ! i)\<lparr>readyState := r\<rparr>]\<rparr>"

text \<open>
  \<^verbatim>\<open>ws.close(...)\<close>: a socket that is connecting or open starts closing, and its
  \<^verbatim>\<open>close\<close> event comes later, as an event of its own; on a socket that is closing or
  closed the call does nothing.
\<close>

definition start_closing :: "nat \<Rightarrow> sock list \<Rightarrow> sock list" where
  "start_closing i ss =
     (if ready_of ss i = Some CONNECTING \<or> ready_of ss i = Some OPEN
      then ss[i := (ss ! i)\<lparr>readyState := CLOSING\<rparr>] else ss)"

definition ws_close :: "nat \<Rightarrow> (nat \<times> string) option \<Rightarrow> ws_service \<Rightarrow> ws_service" where
  "ws_close i args s = (logged (WsClose i args) s)\<lparr>socks := start_closing i (socks s)\<rparr>"

text \<open>\<^verbatim>\<open>resolve()\<close> and \<^verbatim>\<open>reject(error)\<close> of the promise whose executor made socket \<open>i\<close>:
  a settled promise stays as it is.\<close>

definition settled :: "nat \<Rightarrow> pstate \<Rightarrow> sock list \<Rightarrow> sock list" where
  "settled i r ss =
     (if i < length ss \<and> promise (ss ! i) = Pending then ss[i := (ss ! i)\<lparr>promise := r\<rparr>]
      else ss)"

definition settle :: "nat \<Rightarrow> pstate \<Rightarrow> ws_service \<Rightarrow> ws_service" where
  "settle i r s = s\<lparr>socks := settled i r (socks s)\<rparr>"

subsection \<open>Methods of the service\<close>

definition isConnected :: "ws_service \<Rightarrow> bool" where
  "isConnected s = (case ws s of None \<Rightarrow> False | Some i \<Rightarrow> ready_of (socks s) i = Some OPEN)"

definition getStableConnectionStatus :: "ws_service \<Rightarrow> string" where
  "getStableConnectionStatus s = stableConnectionStatus s"

text \<open>
  \<^verbatim>\<open>send\<close>: the text that goes on the wire is the message itself when it is a string and
  \<^verbatim>\<open>JSON.stringify(message)\<close> otherwise; \<^verbatim>\<open>ws.send(undefined)\<close> sends the text
  \<^verbatim>\<open>undefined\<close>. \<open>Inl\<close> is the exception that the \<^verbatim>\<open>try\<close> block ends with.
\<close>

definition wire_text :: "platform \<Rightarrow> message \<Rightarrow> exn + string" where
  "wire_text p m =
     (case m of
        Text t \<Rightarrow> Inr t
      | NonText v \<Rightarrow>
          (case JSON_stringify p v of
             Throws \<Rightarrow> Inl TypeError
           | Undefined \<Rightarrow> Inr ''undefined''
           | Str t \<Rightarrow> Inr t))"

definition send :: "message \<Rightarrow> ws_service \<Rightarrow> bool \<times> ws_service" where
  "send m s =
     (case ws s of
        None \<Rightarrow> (False, s)
      | Some i \<Rightarrow>
          if ready_of (socks s) i = Some OPEN then
            (case wire_text (builtins s) m of
               Inr messageStr \<Rightarrow> (True, logged (WsSend i messageStr) s)
             | Inl error \<Rightarrow> (False, logged (ConsoleError ''send'' error) s))
          else (False, s))"

definition stopHeartbeat :: "ws_service \<Rightarrow> ws_service" where
  "stopHeartbeat s =
     (case pingInterval s of
        Some i \<Rightarrow> (clearInterval i s)\<lparr>pingInterval := None\<rparr>
      | None \<Rightarrow> s)"

definition startHeartbeat :: "ws_service \<Rightarrow> ws_service" where
  "startHeartbeat s =
     (let s1 = stopHeartbeat s;
          (i, s2) = setInterval HeartbeatPing (pingIntervalTime s1) s1
      in s2\<lparr>pingInterval := Some i\<rparr>)"

definition clearDisconnectionTimer :: "ws_service \<Rightarrow> ws_service" where
  "clearDisconnectionTimer s =
     (case disconnectionTimer s of
        Some i \<Rightarrow> (clearTimeout i s)\<lparr>disconnectionTimer := None\<rparr>
      | None \<Rightarrow> s)"

definition startDisconnectionTimer :: "ws_service \<Rightarrow> ws_service" where
  "startDisconnectionTimer s =
     (let s1 = clearDisconnectionTimer s;
          (i, s2) = setTimeout GraceExpired (gracePeriod s1) s1
      in s2\<lparr>disconnectionTimer := Some i\<rparr>)"

definition updateStableStatus :: "string \<Rightarrow> ws_service \<Rightarrow> ws_service" where
  "updateStableStatus status s =
     (if stableConnectionStatus s \<noteq> status
      then emitEvent ''stableStatusChange'' (Value (JStr status))
             (s\<lparr>stableConnectionStatus := status\<rparr>)
      else s)"

text \<open>
  \<^verbatim>\<open>connect()\<close>. With the feature switched off it returns a resolved promise and touches
  nothing. Otherwise the executor of the new promise closes the socket at hand, clears the
  manual flag and makes a socket, whose handlers hold this promise's \<^verbatim>\<open>resolve\<close> and
  \<^verbatim>\<open>reject\<close>; when the socket cannot be made, the \<^verbatim>\<open>catch\<close> rejects the promise at
  once.
\<close>

definition connect :: "ws_service \<Rightarrow> ws_service" where
  "connect s =
     (if \<not> WEBSOCKET_ENABLED (config s) then s
      else
        (let s1 = (case ws s of Some i \<Rightarrow> ws_close i None s | None \<Rightarrow> s);
             s2 = s1\<lparr>isManualDisconnect := False\<rparr>
         in if url_accepted (builtins s2)
            then s2\<lparr>socks := socks s2 @ [\<lparr>readyState = CONNECTING, promise = Pending\<rparr>],
                    ws := Some (length (socks s2))\<rparr>
            else logged SetupFailed s2))"

definition disconnect :: "ws_service \<Rightarrow> ws_service" where
  "disconnect s =
     (let s1 = s\<lparr>isManualDisconnect := True\<rparr>;
          s2 = stopHeartbeat s1;
          s3 = clearDisconnectionTimer s2;
          s4 = updateStableStatus ''disconnected'' s3
      in case ws s4 of
           Some i \<Rightarrow> (ws_close i (Some (1000, ''Manual disconnect'')) s4)\<lparr>ws := None\<rparr>
         | None \<Rightarrow> s4)"

definition scheduleReconnection :: "ws_service \<Rightarrow> ws_service" where
  "scheduleReconnection s =
     (let s1 = s\<lparr>reconnectAttempts := reconnectAttempts s + 1\<rparr>;
          delay = reconnectInterval s1
      in snd (setTimeout ReconnectDue delay s1))"

text \<open>
  \<^verbatim>\<open>on\<close> and \<^verbatim>\<open>off\<close>, with the exception that goes to the application, if any: for an
  inherited name the test succeeds and \<^verbatim>\<open>push\<close>, or \<^verbatim>\<open>indexOf\<close>, is not a function.
\<close>

definition on :: "string \<Rightarrow> listener \<Rightarrow> ws_service \<Rightarrow> exn option \<times> ws_service" where
  "on event callback s =
     (case listeners s event of
        Some cbs \<Rightarrow> (None, s\<lparr>listeners := (listeners s)(event \<mapsto> cbs @ [callback])\<rparr>)
      | None \<Rightarrow>
          if event \<in> set Object_prototype then (Some TypeError, s)
          else (None, logged (UnknownEvent event) s))"

fun remove_first :: "nat \<Rightarrow> listener list \<Rightarrow> listener list" where
  "remove_first i [] = []"
| "remove_first i (l # ls) = (if lid l = i then ls else l # remove_first i ls)"

definition off :: "string \<Rightarrow> listener \<Rightarrow> ws_service \<Rightarrow> exn option \<times> ws_service" where
  "off event callback s =
     (case listeners s event of
        Some cbs \<Rightarrow>
          (None, s\<lparr>listeners := (listeners s)(event \<mapsto> remove_first (lid callback) cbs)\<rparr>)
      | None \<Rightarrow> if event \<in> set Object_prototype then (Some TypeError, s) else (None, s))"

subsection \<open>Handlers of a socket\<close>

definition onopen :: "nat \<Rightarrow> ws_service \<Rightarrow> ws_service" where
  "onopen i s =
     (let s1 = s\<lparr>reconnectAttempts := 0\<rparr>;
          s2 = clearDisconnectionTimer s1;
          s3 = updateStableStatus ''connected'' s2;
          s4 = emitEvent ''open'' OpenEv s3;
          s5 = startHeartbeat s4;
          s6 = snd (send (Text ''Frontend connected'') s5)
      in settle i Resolved s6)"

text \<open>
  Reading \<^verbatim>\<open>data.type\<close> and \<^verbatim>\<open>data.data\<close>: on \<^verbatim>\<open>null\<close> the read throws (\<open>None\<close>);
  an object gives its property or \<^verbatim>\<open>undefined\<close>; a string, number, boolean or array has
  neither property.
\<close>

definition get_prop :: "jsval \<Rightarrow> string \<Rightarrow> jsval option" where
  "get_prop v k =
     (case v of
        JNull \<Rightarrow> None
      | JUndefined \<Rightarrow> None
      | JObj kvs \<Rightarrow> Some (case map_of kvs k of None \<Rightarrow> JUndefined | Some x \<Rightarrow> x)
      | _ \<Rightarrow> Some JUndefined)"

definition echo :: "string \<Rightarrow> payload" where
  "echo text = Value (JObj [(''type'', JStr ''echo''), (''data'', JStr text)])"

definition onmessage :: "string \<Rightarrow> ws_service \<Rightarrow> ws_service" where
  "onmessage text s =
     (case JSON_parse (builtins s) text of
        None \<Rightarrow> emitEvent ''message'' (echo text) s
      | Some data \<Rightarrow>
          (let s1 = emitEvent ''message'' (Value data) s
           in case get_prop data ''type'' of
                None \<Rightarrow> emitEvent ''message'' (echo text) s1
              | Some ty \<Rightarrow>
                  if ty = JStr HEALTH_CHECK
                  then (case get_prop data ''data'' of
                          None \<Rightarrow> emitEvent ''message'' (echo text) s1
                        | Some d \<Rightarrow> emitEvent ''healthCheck'' (Value d) s1)
                  else s1))"

definition onclose :: "nat \<Rightarrow> string \<Rightarrow> ws_service \<Rightarrow> ws_service" where
  "onclose code reason s =
     (let s1 = stopHeartbeat s;
          s2 = startDisconnectionTimer s1;
          s3 = emitEvent ''close'' (CloseEv code reason) s2
      in if \<not> isManualDisconnect s3 \<and> reconnectAttempts s3 < maxReconnectAttempts s3
         then scheduleReconnection s3 else s3)"

definition onerror :: "nat \<Rightarrow> ws_service \<Rightarrow> ws_service" where
  "onerror i s =
     (let s1 = emitEvent ''error'' ErrorEv s
      in if reconnectAttempts s1 = 0 then settle i Rejected s1 else s1)"

subsection \<open>Timer callbacks\<close>

fun run_callback :: "callback \<Rightarrow> ws_service \<Rightarrow> ws_service" where
  "run_callback GraceExpired s = updateStableStatus ''disconnected'' s"
| "run_callback ReconnectDue s =
     (if \<not> isManualDisconnect s \<and> reconnectAttempts s \<le> maxReconnectAttempts s
      then connect
             (logged (AttemptingReconnection (reconnectAttempts s) (maxReconnectAttempts s)) s)
      else s)"
| "run_callback HeartbeatPing s =
     (if isConnected s then snd (send (Text ''ping'') s) else s)"

text \<open>A timeout leaves the table when it fires; an interval is armed again.\<close>

definition rearm :: "timer \<Rightarrow> ws_service \<Rightarrow> ws_service" where
  "rearm t s =
     (case every t of
        None \<Rightarrow> s\<lparr>timers := filter (\<lambda>u. tid u \<noteq> tid t) (timers s)\<rparr>
      | Some p \<Rightarrow>
          s\<lparr>timers := map (\<lambda>u. if tid u = tid t then u\<lparr>due := now s + p\<rparr> else u) (timers s)\<rparr>)"

subsection \<open>The event loop\<close>

text \<open>
  What can happen to the service: a call of the application, time passing, a timer
  firing, an event of a socket. \<open>step\<close> is \<open>None\<close> when the event cannot happen in that
  world: a timer fires only while it is pending and not before it is due; a socket opens
  only while connecting, delivers messages while open or closing, reports an error before
  it closes, and closes once. The \<^verbatim>\<open>close\<close> event of a socket on which \<^verbatim>\<open>close()\<close> was
  called is an event like the others: it comes later, when the transport is done.
\<close>

datatype event =
    Connect
  | Disconnect
  | Send message
  | On string listener
  | Off string listener
  | Advance nat
  | TimerFire nat
  | SockOpen nat
  | SockMessage nat string
  | SockError nat
  | SockClose nat nat string

fun step :: "ws_service \<Rightarrow> event \<Rightarrow> ws_service option" where
  "step s Connect = Some (connect s)"
| "step s Disconnect = Some (disconnect s)"
| "step s (Send m) = Some (snd (send m s))"
| "step s (On event l) = Some (snd (on event l s))"
| "step s (Off event l) = Some (snd (off event l s))"
| "step s (Advance d) = Some (s\<lparr>now := now s + d\<rparr>)"
| "step s (TimerFire i) =
     (case find (\<lambda>t. tid t = i) (timers s) of
        None \<Rightarrow> None
      | Some t \<Rightarrow> if due t \<le> now s then Some (run_callback (cb t) (rearm t s)) else None)"
| "step s (SockOpen i) =
     (if ready_of (socks s) i = Some CONNECTING then Some (onopen i (set_ready i OPEN s)) else None)"
| "step s (SockMessage i text) =
     (if ready_of (socks s) i = Some OPEN \<or> ready_of (socks s) i = Some CLOSING
      then Some (onmessage text s) else None)"
| "step s (SockError i) =
     (if ready_of (socks s) i \<noteq> None \<and> ready_of (socks s) i \<noteq> Some CLOSED
      then Some (onerror i s) else None)"
| "step s (SockClose i code reason) =
     (if ready_of (socks s) i \<noteq> None \<and> ready_of (socks s) i \<noteq> Some CLOSED
      then Some (onclose code reason (set_ready i CLOSED s)) else None)"

fun run :: "ws_service \<Rightarrow> event list \<Rightarrow> ws_service option" where
  "run s [] = Some s"
| "run s (e # es) = (case step s e of None \<Rightarrow> None | Some s' \<Rightarrow> run s' es)"

subsection \<open>Reading the trace\<close>

definition emitted :: "string \<Rightarrow> (nat \<times> action) list \<Rightarrow> (nat \<times> payload) list" where
  "emitted event tr =
     concat (map (\<lambda>(t, a). case a of Emit e d \<Rightarrow> if e = event then [(t, d)] else [] | _ \<Rightarrow> []) tr)"

definition emissions :: "(nat \<times> action) list \<Rightarrow> (nat \<times> string \<times> payload) list" where
  "emissions tr =
     concat (map (\<lambda>(t, a). case a of Emit e d \<Rightarrow> [(t, e, d)] | _ \<Rightarrow> []) tr)"


definition sent_in :: "(nat \<times> action) list \<Rightarrow> (nat \<times> string) list" where
  "sent_in tr = concat (map (\<lambda>(t, a). case a of WsSend i m \<Rightarrow> [(i, m)] | _ \<Rightarrow> []) tr)"

text \<open>What a run added to the trace.\<close>

definition since :: "ws_service \<Rightarrow> ws_service \<Rightarrow> (nat \<times> action) list" where
  "since s s' = drop (length (trace s)) (trace s')"

subsection \<open>The log buffer of the logs viewer\<close>

record log_entry =
  service_id :: "string option"
  timestamp :: string
  level :: string
  message :: string

text \<open>\<^verbatim>\<open>xs.slice(-n)\<close>: the start index is \<^verbatim>\<open>max(len - n, 0)\<close>.\<close>

definition slice_from_end :: "int \<Rightarrow> 'a list \<Rightarrow> 'a list" where
  "slice_from_end n xs = drop (nat (max (int (length xs) - n) 0)) xs"

text \<open>
  \<^verbatim>\<open>handleLogUpdate\<close>: \<open>svc\<close> is \<^verbatim>\<open>service?.service_id\<close>, \<open>prevLogs\<close> is the
  React state (\<open>None\<close> when it is not an array). The state is replaced only when the
  entry belongs to the displayed service.
\<close>

definition handleLogUpdate ::
  "string option \<Rightarrow> log_entry \<Rightarrow> log_entry list option \<Rightarrow> log_entry list option" where
  "handleLogUpdate svc logData prevLogs =
     (if service_id logData = svc then
        (let logsArray = (case prevLogs of Some xs \<Rightarrow> xs | None \<Rightarrow> []);
             newLogs = logsArray @ [logData]
         in if length newLogs > 1000 then Some (slice_from_end 1000 newLogs) else Some newLogs)
      else prevLogs)"

subsection \<open>Concrete settings for the examples\<close>

text \<open>
  The defaults of \<^verbatim>\<open>api.config.js\<close> with the real-time feature switched on: five
  attempts, three seconds between them, a heartbeat every thirty seconds and the default
  grace period of ten seconds.
\<close>

definition example_config :: api_config where
  "example_config =
     \<lparr> MAX_RECONNECT_ATTEMPTS = 5, RECONNECT_INTERVAL = 3000, PING_INTERVAL = 30000,
       VITE_WS_GRACE_PERIOD = None, WEBSOCKET_ENABLED = True \<rparr>"

text \<open>
  A health-check frame as the backend sends it: the text
  \<^verbatim>\<open>{"type":"health_check","data":null}\<close>.
\<close>

definition dq :: char where
  "dq = CHR 0x22"

definition example_frame :: string where
  "example_frame =
     ''{'' @ [dq] @ ''type'' @ [dq] @ '':'' @ [dq] @ ''health_check'' @ [dq] @ '','' @
     [dq] @ ''data'' @ [dq] @ '':null}''"

text \<open>
  The fragment of the built-ins that the examples use: \<^verbatim>\<open>JSON.parse\<close> on the frame
  above and on texts that are not JSON; \<^verbatim>\<open>JSON.stringify\<close> on \<^verbatim>\<open>{}\<close>,
  \<^verbatim>\<open>null\<close>, \<^verbatim>\<open>undefined\<close> and a \<^verbatim>\<open>BigInt\<close>, on which it throws. Outside
  this fragment the stand-in is not the real built-in, and the examples do not go there.
\<close>

definition example_platform :: platform where
  "example_platform =
     \<lparr> JSON_parse =
         (\<lambda>body. if body = example_frame
                  then Some (JObj [(''type'', JStr ''health_check''), (''data'', JNull)])
                  else None),
       JSON_stringify =
         (\<lambda>v. if v = JObj [] then Str ''{}''
              else if v = JNull then Str ''null''
              else if v = JUndefined then Undefined
              else Throws),
       url_accepted = True \<rparr>"

definition example_entry :: "string \<Rightarrow> log_entry" where
  "example_entry m =
     \<lparr> service_id = Some ''svc-1'', timestamp = ''2025-08-13T15:07:56Z'', level = ''INFO'',
       message = m \<rparr>"

text \<open>The world after \<^verbatim>\<open>connect()\<close> and the \<^verbatim>\<open>open\<close> event of its socket.\<close>

definition example_open_world :: ws_service where
  "example_open_world =
     onopen 0 (set_ready 0 OPEN (connect (constructor example_config example_platform)))"


text \<open>The world that a run from the new service of the examples ends in.\<close>

definition world_after :: "event list \<Rightarrow> ws_service" where
  "world_after evs =
     (case run (constructor example_config example_platform) evs of
        Some s \<Rightarrow> s
      | None \<Rightarrow> constructor example_config example_platform)"



definition failing_listener :: listener where
  "failing_listener = Listener 1 (\<lambda>d. True)"

definition quiet_listener :: listener where
  "quiet_listener = Listener 2 (\<lambda>d. False)"

subsection \<open>Invariants and observations\<close>

text \<open>
  The stable status is one of the two texts, the status changes emitted so far never
  repeat, and the last one emitted (if any) is the stored status.
\<close>

definition status_inv :: "ws_service \<Rightarrow> bool" where
  "status_inv s =
     ((stableConnectionStatus s = ''connected'' \<or> stableConnectionStatus s = ''disconnected'') \<and>
      distinct_adj (map snd (emitted ''stableStatusChange'' (trace s))) \<and>
      (if emitted ''stableStatusChange'' (trace s) = []
       then stableConnectionStatus s = ''disconnected''
       else snd (last (emitted ''stableStatusChange'' (trace s))) =
              Value (JStr (stableConnectionStatus s))))"

text \<open>
  When the platform refuses the configured URL no socket is ever made, and then no
  reconnection is ever counted.
\<close>

definition no_socket_inv :: "ws_service \<Rightarrow> bool" where
  "no_socket_inv s =
     (\<not> url_accepted (builtins s) \<longrightarrow> socks s = [] \<and> reconnectAttempts s = 0)"




text \<open>The event is a socket reaching \<^verbatim>\<open>open\<close>.\<close>

definition is_open :: "event \<Rightarrow> bool" where
  "is_open e = (case e of SockOpen i \<Rightarrow> True | _ \<Rightarrow> False)"

text \<open>
  The timer table of a reachable world: ids are unique and below the next id; a pending
  grace timer is the one the service holds in \<^verbatim>\<open>disconnectionTimer\<close>; only the
  heartbeat is an interval.
\<close>

definition timers_ok :: "ws_service \<Rightarrow> bool" where
  "timers_ok s =
     (distinct (map tid (timers s)) \<and>
      (\<forall>t \<in> set (timers s).
         tid t < next_timer s \<and>
         (cb t = GraceExpired \<longrightarrow> disconnectionTimer s = Some (tid t)) \<and>
         (cb t \<noteq> HeartbeatPing \<longrightarrow> every t = None)))"



text \<open>
  The grace timers that are pending; and a world that keeps quiet until \<open>D\<close>: the stable
  status is \<^verbatim>\<open>connected\<close>, no pending grace timer is due before \<open>D\<close>, and a grace
  timer started from now on is not due before \<open>D\<close> either.
\<close>

definition grace_pending :: "ws_service \<Rightarrow> timer list" where
  "grace_pending s = filter (\<lambda>t. cb t = GraceExpired) (timers s)"

definition quiet :: "nat \<Rightarrow> ws_service \<Rightarrow> bool" where
  "quiet D s =
     (stableConnectionStatus s = ''connected'' \<and>
      list_all (\<lambda>t. D \<le> due t) (grace_pending s) \<and>
      D \<le> now s + nat (gracePeriod s))"

text \<open>What a run adds to the trace, read through \<open>f\<close>; \<open>None\<close> when the run cannot happen.\<close>

definition observe ::
  "((nat \<times> action) list \<Rightarrow> 'a) \<Rightarrow> ws_service \<Rightarrow> event list \<Rightarrow> 'a option" where
  "observe f s evs = (case run s evs of None \<Rightarrow> None | Some s' \<Rightarrow> Some (f (since s s')))"

section \<open>Properties\<close>

subsection \<open>Evaluation\<close>

text \<open>
  With this rule the simplifier evaluates the bound state of a \<open>let\<close> before it enters the
  body, as the program does.
\<close>

lemma Let_weak_cong: "a = b \<Longrightarrow> Let a f = Let b f"
  by simp

subsection \<open>The emitter\<close>

lemma guarded_eq:
  "guarded event d l s =
     (None, s\<lparr>trace := trace s @ map (Pair (now s)) (invocation event d l)\<rparr>)"
  by (simp add: guarded_def call_listener_def logged_def invocation_def)

lemma forEach_guarded:
  "forEach (guarded event d) cbs s =
     (None, s\<lparr>trace := trace s @ map (Pair (now s)) (concat (map (invocation event d) cbs))\<rparr>)"
proof (induction cbs arbitrary: s)
  case Nil
  show ?case by simp
next
  case (Cons l cbs)
  then show ?case by (simp add: guarded_eq)
qed

lemma emitEvent_try_eq:
  "emitEvent_try event d s =
     (if listeners s event = None \<and> event \<in> set Object_prototype then Some TypeError else None,
      s\<lparr>trace := trace s @ deliveries (now s) (listeners s) event d\<rparr>)"
  by (cases "listeners s event")
     (simp_all add: emitEvent_try_def forEach_guarded deliveries_def logged_def)

lemma emitEvent_eq:
  "emitEvent event d s = s\<lparr>trace := trace s @ deliveries (now s) (listeners s) event d\<rparr>"
  by (simp add: emitEvent_def emitEvent_try_eq)

text \<open>
  None of the names that the handlers emit is inherited: whatever the listeners are, no
  exception leaves \<^verbatim>\<open>emitEvent\<close> inside a handler.
\<close>

lemma handlers_emit_without_exception:
  "event \<in> {''open'', ''close'', ''error'', ''message'', ''healthCheck'', ''stableStatusChange''}
   \<Longrightarrow> fst (emitEvent_try event d s) = None"
  by (auto simp: emitEvent_try_eq Object_prototype_def)

lemma calls_Nil: "calls [] = []"
  by (simp add: calls_def)

lemma calls_Cons:
  "calls ((t, a) # tr) = (case a of Call i d \<Rightarrow> [(i, d)] | _ \<Rightarrow> []) @ calls tr"
  by (simp add: calls_def)

lemma calls_append: "calls (xs @ ys) = calls xs @ calls ys"
  by (simp add: calls_def)

lemma calls_invocations:
  "calls (map (Pair t) (concat (map (invocation event d) cbs))) = map (\<lambda>l. (lid l, d)) cbs"
  by (induction cbs) (simp_all add: calls_Nil calls_Cons calls_append invocation_def)

lemma calls_deliveries:
  "calls (deliveries t ls event d) =
     (case ls event of None \<Rightarrow> [] | Some cbs \<Rightarrow> map (\<lambda>l. (lid l, d)) cbs)"
  by (cases "ls event")
     (simp_all add: deliveries_def calls_Nil calls_Cons calls_invocations)

subsection \<open>What each method and handler does to the world\<close>

text \<open>
  Each method and handler, written as one update of the world it is applied to. These
  equations are derived from the definitions above; the properties below are read off
  them.
\<close>

lemma stopHeartbeat_eq:
  "stopHeartbeat s = s\<lparr>pingInterval := None, timers := without (pingInterval s) (timers s)\<rparr>"
  by (cases "pingInterval s") (simp_all add: stopHeartbeat_def clearInterval_def without_def)

lemma clearDisconnectionTimer_eq:
  "clearDisconnectionTimer s =
     s\<lparr>disconnectionTimer := None, timers := without (disconnectionTimer s) (timers s)\<rparr>"
  by (cases "disconnectionTimer s")
     (simp_all add: clearDisconnectionTimer_def clearTimeout_def without_def)

lemma startHeartbeat_eq:
  "startHeartbeat s =
     s\<lparr>pingInterval := Some (next_timer s),
       timers := without (pingInterval s) (timers s) @
         [\<lparr>tid = next_timer s, due = now s + nat (pingIntervalTime s),
           every = Some (nat (pingIntervalTime s)), cb = HeartbeatPing\<rparr>],
       next_timer := Suc (next_timer s)\<rparr>"
  by (simp add: startHeartbeat_def stopHeartbeat_eq setInterval_def)

lemma startDisconnectionTimer_eq:
  "startDisconnectionTimer s =
     s\<lparr>disconnectionTimer := Some (next_timer s),
       timers := without (disconnectionTimer s) (timers s) @
         [\<lparr>tid = next_timer s, due = now s + nat (gracePeriod s), every = None,
           cb = GraceExpired\<rparr>],
       next_timer := Suc (next_timer s)\<rparr>"
  by (simp add: startDisconnectionTimer_def clearDisconnectionTimer_eq setTimeout_def)

lemma updateStableStatus_eq:
  "updateStableStatus status s =
     s\<lparr>stableConnectionStatus := status,
       trace := trace s @
         (if stableConnectionStatus s = status then []
          else deliveries (now s) (listeners s) ''stableStatusChange'' (Value (JStr status)))\<rparr>"
  by (simp add: updateStableStatus_def emitEvent_eq)

lemma scheduleReconnection_eq:
  "scheduleReconnection s =
     s\<lparr>reconnectAttempts := reconnectAttempts s + 1,
       timers := timers s @
         [\<lparr>tid = next_timer s, due = now s + nat (reconnectInterval s), every = None,
           cb = ReconnectDue\<rparr>],
       next_timer := Suc (next_timer s)\<rparr>"
  by (simp add: scheduleReconnection_def setTimeout_def)

lemma ws_close_eq:
  "ws_close i args s =
     s\<lparr>socks := start_closing i (socks s), trace := trace s @ [(now s, WsClose i args)]\<rparr>"
  by (simp add: ws_close_def logged_def)

lemma send_eq:
  "snd (send m s) =
     s\<lparr>trace := trace s @
        (case ws s of
           None \<Rightarrow> []
         | Some i \<Rightarrow>
             if ready_of (socks s) i = Some OPEN
             then [(now s, case wire_text (builtins s) m of
                             Inr t \<Rightarrow> WsSend i t
                           | Inl e \<Rightarrow> ConsoleError ''send'' e)]
             else [])\<rparr>"
  by (simp add: send_def logged_def split: option.splits sum.splits)

lemma connect_eq:
  "connect s =
     (if \<not> WEBSOCKET_ENABLED (config s) then s
      else s\<lparr>ws := (if url_accepted (builtins s) then Some (length (socks s)) else ws s),
             isManualDisconnect := False,
             socks := (case ws s of None \<Rightarrow> socks s | Some i \<Rightarrow> start_closing i (socks s)) @
               (if url_accepted (builtins s)
                then [\<lparr>readyState = CONNECTING, promise = Pending\<rparr>] else []),
             trace := trace s @
               (case ws s of None \<Rightarrow> [] | Some i \<Rightarrow> [(now s, WsClose i None)]) @
               (if url_accepted (builtins s) then [] else [(now s, SetupFailed)])\<rparr>)"
  by (cases "ws s") (simp_all add: connect_def ws_close_eq logged_def start_closing_def Let_def)

lemma disconnect_eq:
  "disconnect s =
     s\<lparr>ws := None,
       isManualDisconnect := True,
       pingInterval := None,
       disconnectionTimer := None,
       stableConnectionStatus := ''disconnected'',
       timers := without (disconnectionTimer s) (without (pingInterval s) (timers s)),
       socks := (case ws s of None \<Rightarrow> socks s | Some i \<Rightarrow> start_closing i (socks s)),
       trace := trace s @
         (if stableConnectionStatus s = ''disconnected'' then []
          else deliveries (now s) (listeners s) ''stableStatusChange''
                 (Value (JStr ''disconnected''))) @
         (case ws s of
            None \<Rightarrow> []
          | Some i \<Rightarrow> [(now s, WsClose i (Some (1000, ''Manual disconnect'')))])\<rparr>"
  by (cases "ws s")
     (simp_all add: disconnect_def stopHeartbeat_eq clearDisconnectionTimer_eq
        updateStableStatus_eq ws_close_eq Let_def)

lemma onclose_eq:
  "onclose code reason s =
     s\<lparr>reconnectAttempts :=
         (if \<not> isManualDisconnect s \<and> reconnectAttempts s < maxReconnectAttempts s
          then reconnectAttempts s + 1 else reconnectAttempts s),
       pingInterval := None,
       disconnectionTimer := Some (next_timer s),
       timers := without (disconnectionTimer s) (without (pingInterval s) (timers s)) @
         [\<lparr>tid = next_timer s, due = now s + nat (gracePeriod s), every = None,
           cb = GraceExpired\<rparr>] @
         (if \<not> isManualDisconnect s \<and> reconnectAttempts s < maxReconnectAttempts s
          then [\<lparr>tid = Suc (next_timer s), due = now s + nat (reconnectInterval s),
                 every = None, cb = ReconnectDue\<rparr>]
          else []),
       next_timer :=
         (if \<not> isManualDisconnect s \<and> reconnectAttempts s < maxReconnectAttempts s
          then Suc (Suc (next_timer s)) else Suc (next_timer s)),
       trace := trace s @ deliveries (now s) (listeners s) ''close'' (CloseEv code reason)\<rparr>"
  by (simp add: onclose_def stopHeartbeat_eq startDisconnectionTimer_eq emitEvent_eq
        scheduleReconnection_eq Let_def)


lemma onopen_eq:
  "onopen i s =
     s\<lparr>reconnectAttempts := 0,
       pingInterval := Some (next_timer s),
       disconnectionTimer := None,
       stableConnectionStatus := ''connected'',
       timers := without (pingInterval s) (without (disconnectionTimer s) (timers s)) @
         [\<lparr>tid = next_timer s, due = now s + nat (pingIntervalTime s),
           every = Some (nat (pingIntervalTime s)), cb = HeartbeatPing\<rparr>],
       next_timer := Suc (next_timer s),
       socks := settled i Resolved (socks s),
       trace := trace s @
         (if stableConnectionStatus s = ''connected'' then []
          else deliveries (now s) (listeners s) ''stableStatusChange''
                 (Value (JStr ''connected''))) @
         deliveries (now s) (listeners s) ''open'' OpenEv @
         (case ws s of
            None \<Rightarrow> []
          | Some j \<Rightarrow>
              if ready_of (socks s) j = Some OPEN
              then [(now s, WsSend j ''Frontend connected'')] else [])\<rparr>"
  by (cases "ws s")
     (simp_all add: onopen_def clearDisconnectionTimer_eq updateStableStatus_eq emitEvent_eq
        startHeartbeat_eq send_eq settle_def wire_text_def Let_def)

lemma onerror_eq:
  "onerror i s =
     s\<lparr>socks := (if reconnectAttempts s = 0 then settled i Rejected (socks s) else socks s),
       trace := trace s @ deliveries (now s) (listeners s) ''error'' ErrorEv\<rparr>"
  by (simp add: onerror_def emitEvent_eq settle_def Let_def)

lemma onmessage_eq:
  "onmessage text s =
     s\<lparr>trace := trace s @
        (case JSON_parse (builtins s) text of
           None \<Rightarrow> deliveries (now s) (listeners s) ''message'' (echo text)
         | Some data \<Rightarrow>
             deliveries (now s) (listeners s) ''message'' (Value data) @
             (case get_prop data ''type'' of
                None \<Rightarrow> deliveries (now s) (listeners s) ''message'' (echo text)
              | Some ty \<Rightarrow>
                  if ty = JStr HEALTH_CHECK
                  then (case get_prop data ''data'' of
                          None \<Rightarrow> deliveries (now s) (listeners s) ''message'' (echo text)
                        | Some d \<Rightarrow> deliveries (now s) (listeners s) ''healthCheck'' (Value d))
                  else []))\<rparr>"
  by (simp add: onmessage_def emitEvent_eq Let_def split: option.splits)

lemma run_callback_eq:
  "run_callback c s =
     (case c of
        GraceExpired \<Rightarrow>
          s\<lparr>stableConnectionStatus := ''disconnected'',
            trace := trace s @
              (if stableConnectionStatus s = ''disconnected'' then []
               else deliveries (now s) (listeners s) ''stableStatusChange''
                      (Value (JStr ''disconnected'')))\<rparr>
      | ReconnectDue \<Rightarrow>
          if \<not> isManualDisconnect s \<and> reconnectAttempts s \<le> maxReconnectAttempts s
          then connect
                 (s\<lparr>trace := trace s @
                     [(now s, AttemptingReconnection (reconnectAttempts s)
                                (maxReconnectAttempts s))]\<rparr>)
          else s
      | HeartbeatPing \<Rightarrow>
          s\<lparr>trace := trace s @
             (case ws s of
                None \<Rightarrow> []
              | Some i \<Rightarrow>
                  if ready_of (socks s) i = Some OPEN then [(now s, WsSend i ''ping'')]
                  else [])\<rparr>)"
  by (cases c)
     (simp_all add: updateStableStatus_eq logged_def isConnected_def send_eq wire_text_def
        split: option.splits)


lemma rearm_eq:
  "rearm t s =
     s\<lparr>timers :=
        (case every t of
           None \<Rightarrow> filter (\<lambda>u. tid u \<noteq> tid t) (timers s)
         | Some p \<Rightarrow> map (\<lambda>u. if tid u = tid t then u\<lparr>due := now s + p\<rparr> else u) (timers s))\<rparr>"
  by (simp add: rearm_def split: option.splits)

lemma on_eq:
  "snd (on event l s) =
     (case listeners s event of
        Some cbs \<Rightarrow> s\<lparr>listeners := (listeners s)(event \<mapsto> cbs @ [l])\<rparr>
      | None \<Rightarrow>
          s\<lparr>trace := trace s @
             (if event \<in> set Object_prototype then [] else [(now s, UnknownEvent event)])\<rparr>)"
  by (simp add: on_def logged_def split: option.splits)

lemma off_eq:
  "snd (off event l s) =
     (case listeners s event of
        Some cbs \<Rightarrow> s\<lparr>listeners := (listeners s)(event \<mapsto> remove_first (lid l) cbs)\<rparr>
      | None \<Rightarrow> s)"
  by (simp add: off_def split: option.splits)

lemmas handler_eqs = connect_eq disconnect_eq send_eq on_eq off_eq onopen_eq onmessage_eq
  onerror_eq onclose_eq run_callback_eq rearm_eq set_ready_def

lemma emitted_Nil: "emitted event [] = []"
  by (simp add: emitted_def)

lemma emitted_Cons:
  "emitted event ((t, a) # tr) =
     (case a of Emit e d \<Rightarrow> if e = event then [(t, d)] else [] | _ \<Rightarrow> []) @ emitted event tr"
  by (simp add: emitted_def)

lemma emitted_append: "emitted event (xs @ ys) = emitted event xs @ emitted event ys"
  by (simp add: emitted_def)

lemma emitted_invocations:
  "emitted event (map (Pair t) (concat (map (invocation e d) cbs))) = []"
  by (induction cbs) (simp_all add: emitted_Nil emitted_Cons emitted_append invocation_def)

lemma emitted_deliveries:
  "emitted event (deliveries t ls e d) = (if e = event then [(t, d)] else [])"
  by (cases "ls e")
     (simp_all add: deliveries_def emitted_Nil emitted_Cons emitted_invocations)

lemmas emitted_simps = emitted_Nil emitted_Cons emitted_append emitted_deliveries

lemma since_append: "since s (s\<lparr>trace := trace s @ new\<rparr>) = new"
  by (simp add: since_def)

lemma step_status:
  assumes "step s e = Some s'"
  shows "emitted ''stableStatusChange'' (since s s') =
           (if stableConnectionStatus s' = stableConnectionStatus s then []
            else [(now s, Value (JStr (stableConnectionStatus s')))]) \<and>
         (stableConnectionStatus s' = stableConnectionStatus s \<or>
          stableConnectionStatus s' = ''connected'' \<or>
          stableConnectionStatus s' = ''disconnected'')"
proof (cases e)
  case Connect
  with assms show ?thesis
    by (auto simp: connect_eq since_def emitted_simps split: option.splits if_splits)
next
  case Disconnect
  with assms show ?thesis
    by (auto simp: disconnect_eq since_def emitted_simps split: option.splits)
next
  case (Send m)
  with assms show ?thesis
    by (auto simp: send_eq since_def emitted_simps split: option.splits sum.splits)
next
  case (On ev l)
  with assms show ?thesis
    by (auto simp: on_eq since_def emitted_simps split: option.splits)
next
  case (Off ev l)
  with assms show ?thesis
    by (auto simp: off_eq since_def emitted_simps split: option.splits)
next
  case (Advance d)
  with assms show ?thesis
    by (auto simp: since_def emitted_simps)
next
  case (TimerFire i)
  with assms obtain t where s': "s' = run_callback (cb t) (rearm t s)"
    by (auto split: option.splits if_splits)
  show ?thesis unfolding s'
    by (cases "cb t")
       (auto simp: run_callback_eq rearm_eq connect_eq since_def emitted_simps
          split: option.splits if_splits)
next
  case (SockOpen i)
  with assms show ?thesis
    by (auto simp: onopen_eq set_ready_def since_def emitted_simps split: option.splits if_splits)
next
  case (SockMessage i body)
  with assms show ?thesis
    by (auto simp: onmessage_eq since_def emitted_simps split: option.splits if_splits)
next
  case (SockError i)
  with assms show ?thesis
    by (auto simp: onerror_eq since_def emitted_simps split: option.splits if_splits)
next
  case (SockClose i code reason)
  with assms show ?thesis
    by (auto simp: onclose_eq set_ready_def since_def emitted_simps split: option.splits if_splits)
qed

text \<open>
  Claim C9. Emission is exception-isolated. For every world, payload and event name with
  a subscriber list: no exception leaves \<^verbatim>\<open>emitEvent\<close>, although \<^verbatim>\<open>forEach\<close> would
  pass one on, and every subscriber of the list is called, in registration order, with the
  same payload, whether or not an earlier one threw. For every name, the service is left as
  it was, apart from the record of what was done. An exception leaves \<^verbatim>\<open>emitEvent\<close>
  only for a name that has no subscriber list and is inherited from \<^verbatim>\<open>Object.prototype\<close>:
  it is the \<^verbatim>\<open>TypeError\<close> of the missing \<^verbatim>\<open>forEach\<close>, never the exception of a
  subscriber, and no subscriber was called.
\<close>

theorem emitEvent_isolates_listener_failures:
  "(\<forall>cbs. listeners s event = Some cbs \<longrightarrow>
      fst (emitEvent_try event d s) = None \<and>
      calls (since s (snd (emitEvent_try event d s))) = map (\<lambda>l. (lid l, d)) cbs) \<and>
   (snd (emitEvent_try event d s))\<lparr>trace := trace s\<rparr> = s \<and>
   (\<forall>e. fst (emitEvent_try event d s) = Some e \<longrightarrow>
      e = TypeError \<and> listeners s event = None \<and> event \<in> set Object_prototype \<and>
      calls (since s (snd (emitEvent_try event d s))) = [])"
  by (simp add: emitEvent_try_eq since_def calls_deliveries)

text \<open>
  The first subscriber of \<^verbatim>\<open>message\<close> throws on every payload, the second does not:
  both are called, and the failure is only logged. Nobody can subscribe to \<^verbatim>\<open>toString\<close>,
  and emitting it on a new service throws the \<^verbatim>\<open>TypeError\<close>.
\<close>

theorem emitEvent_isolates_listener_failures_witness:
  "listeners
     (snd (on ''message'' quiet_listener
        (snd (on ''message'' failing_listener (constructor example_config example_platform)))))
     ''message'' = Some [failing_listener, quiet_listener] \<and>
   throws_on failing_listener (Value JNull) \<and>
   fst (emitEvent_try ''message'' (Value JNull)
     (snd (on ''message'' quiet_listener
        (snd (on ''message'' failing_listener
           (constructor example_config example_platform)))))) = None \<and>
   calls (since
     (snd (on ''message'' quiet_listener
        (snd (on ''message'' failing_listener (constructor example_config example_platform)))))
     (snd (emitEvent_try ''message'' (Value JNull)
        (snd (on ''message'' quiet_listener
           (snd (on ''message'' failing_listener
              (constructor example_config example_platform))))))))
     = [(1, Value JNull), (2, Value JNull)] \<and>
   fst (emitEvent_try ''toString'' (Value JNull) (constructor example_config example_platform))
     = Some TypeError \<and>
   listeners (constructor example_config example_platform) ''toString'' = None \<and>
   ''toString'' \<in> set Object_prototype"
proof -
  let ?c = "constructor example_config example_platform"
  let ?s = "snd (on ''message'' quiet_listener (snd (on ''message'' failing_listener ?c)))"
  have l: "listeners ?s ''message'' = Some [failing_listener, quiet_listener]"
    by (simp add: on_def constructor_def)
  have e: "fst (emitEvent_try ''toString'' (Value JNull) ?c) = Some TypeError"
    by (simp add: emitEvent_try_def constructor_def Object_prototype_def)
  show ?thesis
    using l e
      emitEvent_isolates_listener_failures [of ?s "''message''" "Value JNull"]
      emitEvent_isolates_listener_failures [of ?c "''toString''" "Value JNull"]
    by (simp add: failing_listener_def quiet_listener_def)
qed

subsection \<open>The log buffer\<close>

text \<open>
  Claim C8. The log buffer is capped at 1000 entries. For an entry of the displayed
  service: appended to a buffer of exactly 1000 entries it gives the buffer without its
  oldest entry followed by the new one, again 1000 entries in arrival order; appended to
  a shorter buffer it gives the buffer followed by the new entry, nothing evicted.
\<close>

theorem log_buffer_capped_at_1000:
  assumes "service_id logData = svc"
  shows "(length logs = 1000 \<longrightarrow>
            handleLogUpdate svc logData (Some logs) = Some (tl logs @ [logData]) \<and>
            length (tl logs @ [logData]) = 1000) \<and>
         (length logs < 1000 \<longrightarrow>
            handleLogUpdate svc logData (Some logs) = Some (logs @ [logData]))"
proof (intro conjI impI)
  assume len: "length logs = 1000"
  then obtain x xs where logs: "logs = x # xs" by (cases logs) auto
  have "slice_from_end 1000 (logs @ [logData]) = drop 1 (logs @ [logData])"
    using len by (simp add: slice_from_end_def)
  then show "handleLogUpdate svc logData (Some logs) = Some (tl logs @ [logData])"
    using assms len logs by (simp add: handleLogUpdate_def)
  show "length (tl logs @ [logData]) = 1000" using len by simp
next
  assume "length logs < 1000"
  then show "handleLogUpdate svc logData (Some logs) = Some (logs @ [logData])"
    using assms by (simp add: handleLogUpdate_def)
qed

theorem log_buffer_capped_at_1000_witness:
  "service_id (example_entry ''new'') = Some ''svc-1'' \<and>
   length (replicate 1000 (example_entry ''old'')) = 1000 \<and>
   handleLogUpdate (Some ''svc-1'') (example_entry ''new'')
       (Some (replicate 1000 (example_entry ''old'')))
     = Some (replicate 999 (example_entry ''old'') @ [example_entry ''new'']) \<and>
   length [example_entry ''a'', example_entry ''b''] < 1000 \<and>
   handleLogUpdate (Some ''svc-1'') (example_entry ''new'')
       (Some [example_entry ''a'', example_entry ''b''])
     = Some [example_entry ''a'', example_entry ''b'', example_entry ''new'']"
proof -
  have h: "service_id (example_entry ''new'') = Some ''svc-1''"
    by (simp add: example_entry_def)
  have t: "tl (replicate 1000 (example_entry ''old'')) = replicate 999 (example_entry ''old'')"
    by simp
  show ?thesis
    using h t
      log_buffer_capped_at_1000 [OF h, of "replicate 1000 (example_entry ''old'')"]
      log_buffer_capped_at_1000 [OF h, of "[example_entry ''a'', example_entry ''b'']"]
    by simp
qed

subsection \<open>The trace only grows\<close>

lemma step_trace_prefix:
  assumes "step s e = Some s'"
  shows "\<exists>new. trace s' = trace s @ new"
proof (cases e)
  case (TimerFire i)
  with assms obtain t where s': "s' = run_callback (cb t) (rearm t s)"
    by (auto split: option.splits if_splits)
  show ?thesis unfolding s'
    by (cases "cb t") (auto simp: run_callback_eq rearm_eq connect_eq)
qed (use assms in \<open>auto simp: handler_eqs split: option.splits if_splits\<close>)

lemma since_eqI: "trace s' = trace s @ new \<Longrightarrow> since s s' = new"
  by (simp add: since_def)

lemma step_trace: "step s e = Some s' \<Longrightarrow> trace s' = trace s @ since s s'"
  using step_trace_prefix [of s e s'] by (auto simp: since_def)

lemma since_trans:
  assumes "trace s1 = trace s @ since s s1" "trace s2 = trace s1 @ since s1 s2"
  shows "since s s2 = since s s1 @ since s1 s2"
proof (rule since_eqI)
  show "trace s2 = trace s @ since s s1 @ since s1 s2"
    using assms by (metis append_assoc)
qed

lemma run_trace: "run s evs = Some s' \<Longrightarrow> trace s' = trace s @ since s s'"
proof (induction evs arbitrary: s)
  case Nil
  then show ?case by (simp add: since_def)
next
  case (Cons e evs)
  then obtain s1 where s1: "step s e = Some s1" and r: "run s1 evs = Some s'"
    by (auto split: option.splits)
  have "since s s' = since s s1 @ since s1 s'"
    by (rule since_trans [OF step_trace [OF s1] Cons.IH [OF r]])
  then show ?case
    using step_trace [OF s1] Cons.IH [OF r] by (metis append_assoc)
qed

lemma status_inv_constructor: "status_inv (constructor c p)"
  by (simp add: status_inv_def constructor_def emitted_Nil)

lemma status_inv_step:
  assumes "step s e = Some s'" "status_inv s"
  shows "status_inv s'"
proof -
  note st = step_status [OF assms(1)]
  have tr: "trace s' = trace s @ since s s'" by (rule step_trace [OF assms(1)])
  show ?thesis
  proof (cases "stableConnectionStatus s' = stableConnectionStatus s")
    case True
    with st have "emitted ''stableStatusChange'' (since s s') = []" by simp
    then have "emitted ''stableStatusChange'' (trace s') = emitted ''stableStatusChange'' (trace s)"
      by (subst tr) (simp add: emitted_append)
    with True assms(2) show ?thesis by (simp add: status_inv_def)
  next
    case False
    with st have e: "emitted ''stableStatusChange'' (since s s') =
        [(now s, Value (JStr (stableConnectionStatus s')))]" by simp
    have "emitted ''stableStatusChange'' (trace s') =
        emitted ''stableStatusChange'' (trace s) @ [(now s, Value (JStr (stableConnectionStatus s')))]"
      by (subst tr) (simp add: emitted_append e)
    with False st assms(2) show ?thesis
      by (auto simp: status_inv_def distinct_adj_append_iff last_map split: if_splits)
  qed
qed

lemma status_inv_run: "run s evs = Some s' \<Longrightarrow> status_inv s \<Longrightarrow> status_inv s'"
proof (induction evs arbitrary: s)
  case Nil
  then show ?case by simp
next
  case (Cons e evs)
  then obtain s1 where s1: "step s e = Some s1" and r: "run s1 evs = Some s'"
    by (auto split: option.splits)
  show ?case by (rule Cons.IH [OF r status_inv_step [OF s1 Cons.prems(2)]])
qed


lemmas eval_defs = constructor_def example_config_def example_platform_def
  connect_def disconnect_def send_def wire_text_def on_def off_def
  onopen_def onmessage_def onerror_def onclose_def
  stopHeartbeat_def startHeartbeat_def clearDisconnectionTimer_def startDisconnectionTimer_def
  updateStableStatus_def scheduleReconnection_def
  setTimeout_def setInterval_def clearTimeout_def clearInterval_def
  ready_of_def set_ready_def start_closing_def ws_close_def settled_def settle_def
  isConnected_def logged_def rearm_def emitEvent_eq deliveries_def invocation_def
  get_prop_def echo_def HEALTH_CHECK_def

text \<open>
  Claim C10. The stable status is a two-valued signal. It is \<^verbatim>\<open>disconnected\<close> at
  construction; in every world reached from construction, by any events, it is
  \<^verbatim>\<open>connected\<close> or \<^verbatim>\<open>disconnected\<close>; of the \<^verbatim>\<open>stableStatusChange\<close> payloads
  emitted so far no two consecutive ones are equal; and whatever happens next emits a
  status change exactly when it changes the stored status, with the new status as payload.
\<close>

theorem stable_status_is_two_valued_and_changes_alternate:
  assumes "run (constructor c p) evs = Some s"
  shows "stableConnectionStatus (constructor c p) = ''disconnected'' \<and>
         (stableConnectionStatus s = ''connected'' \<or> stableConnectionStatus s = ''disconnected'') \<and>
         distinct_adj (map snd (emitted ''stableStatusChange'' (trace s))) \<and>
         (\<forall>e s'. step s e = Some s' \<longrightarrow>
            emitted ''stableStatusChange'' (since s s') =
              (if stableConnectionStatus s' = stableConnectionStatus s then []
               else [(now s, Value (JStr (stableConnectionStatus s')))]))"
proof -
  have "status_inv s"
    by (rule status_inv_run [OF assms status_inv_constructor])
  then show ?thesis
    using step_status by (simp add: status_inv_def constructor_def)
qed

text \<open>
  A connection opens, drops, and the grace period passes: \<^verbatim>\<open>connected\<close> at time 0,
  \<^verbatim>\<open>disconnected\<close> at time 10000.
\<close>

theorem stable_status_is_two_valued_and_changes_alternate_witness:
  "observe (emitted ''stableStatusChange'') (constructor example_config example_platform)
     [Connect, SockOpen 0, SockClose 0 1006 [], Advance 10000, TimerFire 2]
     = Some [(0, Value (JStr ''connected'')), (10000, Value (JStr ''disconnected''))] \<and>
   distinct_adj [Value (JStr ''connected''), Value (JStr ''disconnected'')]"
proof -
  let ?evs = "[Connect, SockOpen 0, SockClose 0 1006 [], Advance 10000, TimerFire 2]"
  let ?s0 = "constructor example_config example_platform"
  have "\<exists>s. run ?s0 ?evs = Some s \<and>
          emitted ''stableStatusChange'' (trace s) =
            [(0, Value (JStr ''connected'')), (10000, Value (JStr ''disconnected''))]"
    by (simp add: eval_defs emitted_simps cong: Let_weak_cong prod.case_cong_weak)
  then obtain s where r: "run ?s0 ?evs = Some s"
    and e: "emitted ''stableStatusChange'' (trace s) =
            [(0, Value (JStr ''connected'')), (10000, Value (JStr ''disconnected''))]"
    by blast
  have "trace ?s0 = []" by (simp add: constructor_def)
  then have "since ?s0 s = trace s" by (simp add: since_def)
  with r e have "observe (emitted ''stableStatusChange'') ?s0 ?evs =
      Some [(0, Value (JStr ''connected'')), (10000, Value (JStr ''disconnected''))]"
    by (simp add: observe_def del: run.simps)
  moreover have "distinct_adj (map snd (emitted ''stableStatusChange'' (trace s)))"
    using stable_status_is_two_valued_and_changes_alternate [OF r] by blast
  ultimately show ?thesis using e by simp
qed

subsection \<open>Inbound messages and sending\<close>

lemma emissions_Nil: "emissions [] = []"
  by (simp add: emissions_def)

lemma emissions_Cons:
  "emissions ((t, a) # tr) = (case a of Emit e d \<Rightarrow> [(t, e, d)] | _ \<Rightarrow> []) @ emissions tr"
  by (simp add: emissions_def)

lemma emissions_append: "emissions (xs @ ys) = emissions xs @ emissions ys"
  by (simp add: emissions_def)

lemma emissions_invocations:
  "emissions (map (Pair t) (concat (map (invocation e d) cbs))) = []"
  by (induction cbs) (simp_all add: emissions_Nil emissions_Cons emissions_append invocation_def)

lemma emissions_deliveries: "emissions (deliveries t ls e d) = [(t, e, d)]"
  by (cases "ls e")
     (simp_all add: deliveries_def emissions_Nil emissions_Cons emissions_invocations)

text \<open>
  Claim C7. Inbound messages. When the text parses to an object whose \<^verbatim>\<open>type\<close> is
  \<^verbatim>\<open>health_check\<close>, exactly two events are emitted, in this order: \<^verbatim>\<open>message\<close> with
  the parsed object, and the dedicated health event with the object's \<^verbatim>\<open>data\<close> field
  (\<^verbatim>\<open>undefined\<close> when the object has none). When the text does not parse, exactly one
  event is emitted: \<^verbatim>\<open>message\<close> with the object \<^verbatim>\<open>{type: 'echo', data: text}\<close>, so no
  health event. The handler changes nothing else. The dedicated channel, which the
  specification calls \<^verbatim>\<open>healthUpdate\<close>, has the name \<^verbatim>\<open>healthCheck\<close> in the code.
\<close>

theorem onmessage_health_check_and_plain_text:
  "(JSON_parse (builtins s) body = Some (JObj kvs) \<and>
    map_of kvs ''type'' = Some (JStr ''health_check'') \<longrightarrow>
      emissions (since s (onmessage body s)) =
        [(now s, ''message'', Value (JObj kvs)),
         (now s, ''healthCheck'',
            Value (case map_of kvs ''data'' of None \<Rightarrow> JUndefined | Some d \<Rightarrow> d))]) \<and>
   (JSON_parse (builtins s) body = None \<longrightarrow>
      emissions (since s (onmessage body s)) =
        [(now s, ''message'', Value (JObj [(''type'', JStr ''echo''), (''data'', JStr body)]))]) \<and>
   (onmessage body s)\<lparr>trace := trace s\<rparr> = s"
  by (simp add: onmessage_eq since_def emissions_append emissions_deliveries get_prop_def
        HEALTH_CHECK_def echo_def)

text \<open>The health-check frame and the plain text \<^verbatim>\<open>pong\<close>, on a new service.\<close>

theorem onmessage_health_check_and_plain_text_witness:
  "JSON_parse (builtins (constructor example_config example_platform)) example_frame =
     Some (JObj [(''type'', JStr ''health_check''), (''data'', JNull)]) \<and>
   map_of [(''type'', JStr ''health_check''), (''data'', JNull)] ''type'' =
     Some (JStr ''health_check'') \<and>
   emissions (since (constructor example_config example_platform)
       (onmessage example_frame (constructor example_config example_platform))) =
     [(0, ''message'', Value (JObj [(''type'', JStr ''health_check''), (''data'', JNull)])),
      (0, ''healthCheck'', Value JNull)] \<and>
   JSON_parse (builtins (constructor example_config example_platform)) ''pong'' = None \<and>
   emissions (since (constructor example_config example_platform)
       (onmessage ''pong'' (constructor example_config example_platform))) =
     [(0, ''message'', Value (JObj [(''type'', JStr ''echo''), (''data'', JStr ''pong'')]))]"
proof -
  let ?s = "constructor example_config example_platform"
  have p: "JSON_parse (builtins ?s) example_frame =
             Some (JObj [(''type'', JStr ''health_check''), (''data'', JNull)])"
    by (simp add: constructor_def example_platform_def)
  have q: "JSON_parse (builtins ?s) ''pong'' = None"
    by (simp add: constructor_def example_platform_def example_frame_def)
  have n: "now ?s = 0"
    by (simp add: constructor_def)
  show ?thesis
    using p q n
      onmessage_health_check_and_plain_text
        [of ?s example_frame "[(''type'', JStr ''health_check''), (''data'', JNull)]"]
      onmessage_health_check_and_plain_text [of ?s "''pong''" "[]"]
    by simp
qed

text \<open>
  Claim C6, amended. \<^verbatim>\<open>send\<close>. For every payload: without a socket, or with a socket
  that is not open, \<^verbatim>\<open>send\<close> returns \<^verbatim>\<open>false\<close> and leaves the world as it was, so
  that nothing is sent; the result is a value in every case, never an exception. On an open
  socket a string goes out as it is and \<^verbatim>\<open>true\<close> is returned; another payload goes
  through \<^verbatim>\<open>JSON.stringify\<close>: the text it returns goes out and \<^verbatim>\<open>true\<close> is
  returned; when it returns \<^verbatim>\<open>undefined\<close> the text \<^verbatim>\<open>undefined\<close> goes out and
  \<^verbatim>\<open>true\<close> is returned; when it throws, nothing is sent and \<^verbatim>\<open>false\<close> is returned.
\<close>

theorem send_fails_safely_unless_open:
  "((ws s = None \<or> (\<exists>i. ws s = Some i \<and> ready_of (socks s) i \<noteq> Some OPEN)) \<longrightarrow>
      send m s = (False, s)) \<and>
   (\<forall>i. ws s = Some i \<and> ready_of (socks s) i = Some OPEN \<longrightarrow>
      send (Text t) s = (True, s\<lparr>trace := trace s @ [(now s, WsSend i t)]\<rparr>) \<and>
      (JSON_stringify (builtins s) v = Str t \<longrightarrow>
         send (NonText v) s = (True, s\<lparr>trace := trace s @ [(now s, WsSend i t)]\<rparr>)) \<and>
      (JSON_stringify (builtins s) v = Undefined \<longrightarrow>
         send (NonText v) s =
           (True, s\<lparr>trace := trace s @ [(now s, WsSend i ''undefined'')]\<rparr>)) \<and>
      (JSON_stringify (builtins s) v = Throws \<longrightarrow>
         fst (send (NonText v) s) = False \<and> sent_in (since s (snd (send (NonText v) s))) = []))"
  by (auto simp: send_def wire_text_def logged_def since_def sent_in_def)

text \<open>
  Claim C6 as it was stated has every payload that is not a string sent as JSON text.
  For \<^verbatim>\<open>undefined\<close> the serialiser returns no text, \<^verbatim>\<open>undefined\<close>, which
  \<^verbatim>\<open>WebSocket.send\<close> converts to a string: on the open connection
  \<^verbatim>\<open>send(undefined)\<close> returns \<^verbatim>\<open>true\<close> and the nine characters \<^verbatim>\<open>undefined\<close>
  go out, which \<^verbatim>\<open>JSON.parse\<close> refuses.
\<close>

theorem send_undefined_is_not_json_counterexample:
  "ws example_open_world = Some 0 \<and>
   ready_of (socks example_open_world) 0 = Some OPEN \<and>
   JSON_stringify (builtins example_open_world) JUndefined = Undefined \<and>
   send (NonText JUndefined) example_open_world =
     (True,
      example_open_world\<lparr>trace := trace example_open_world @ [(0, WsSend 0 ''undefined'')]\<rparr>) \<and>
   JSON_parse (builtins example_open_world) ''undefined'' = None"
  by (simp add: example_open_world_def eval_defs example_frame_def
        cong: Let_weak_cong prod.case_cong_weak)

text \<open>
  A new service has no socket; on the open connection the empty object goes out as
  \<^verbatim>\<open>{}\<close>, \<^verbatim>\<open>undefined\<close> as the text \<^verbatim>\<open>undefined\<close>, and a \<^verbatim>\<open>BigInt\<close> is refused
  by the serialiser.
\<close>

theorem send_fails_safely_unless_open_witness:
  "ws (constructor example_config example_platform) = None \<and>
   send (NonText (JObj [])) (constructor example_config example_platform) =
     (False, constructor example_config example_platform) \<and>
   ws example_open_world = Some 0 \<and>
   ready_of (socks example_open_world) 0 = Some OPEN \<and>
   JSON_stringify (builtins example_open_world) (JObj []) = Str ''{}'' \<and>
   send (NonText (JObj [])) example_open_world =
     (True, example_open_world\<lparr>trace := trace example_open_world @ [(0, WsSend 0 ''{}'')]\<rparr>) \<and>
   JSON_stringify (builtins example_open_world) JUndefined = Undefined \<and>
   fst (send (NonText JUndefined) example_open_world) = True \<and>
   JSON_stringify (builtins example_open_world) (JBigInt ''1'') = Throws \<and>
   fst (send (NonText (JBigInt ''1'')) example_open_world) = False"
proof -
  let ?s = "constructor example_config example_platform"
  have a: "ws ?s = None"
    by (simp add: constructor_def)
  have b: "ws example_open_world = Some 0 \<and> ready_of (socks example_open_world) 0 = Some OPEN \<and>
           now example_open_world = 0"
    by (simp add: example_open_world_def onopen_eq connect_eq set_ready_def constructor_def
          example_config_def example_platform_def ready_of_def settled_def)
  have c: "JSON_stringify (builtins example_open_world) (JObj []) = Str ''{}'' \<and>
           JSON_stringify (builtins example_open_world) JUndefined = Undefined \<and>
           JSON_stringify (builtins example_open_world) (JBigInt ''1'') = Throws"
    by (simp add: example_open_world_def onopen_eq connect_eq set_ready_def constructor_def
          example_config_def example_platform_def)
  show ?thesis
    using a b c
      send_fails_safely_unless_open [of ?s "NonText (JObj [])"]
      send_fails_safely_unless_open [of example_open_world _ "''{}''" "JObj []"]
      send_fails_safely_unless_open [of example_open_world _ _ "JUndefined"]
      send_fails_safely_unless_open [of example_open_world _ _ "JBigInt ''1''"]
    by simp
qed

subsection \<open>Manual disconnect\<close>


















subsection \<open>The promise of connect\<close>

lemma length_start_closing: "length (start_closing i ss) = length ss"
  by (simp add: start_closing_def)

lemma promise_start_closing: "promise (start_closing i ss ! k) = promise (ss ! k)"
  by (cases "k = i") (simp_all add: start_closing_def ready_of_def)

lemma length_settled: "length (settled i r ss) = length ss"
  by (simp add: settled_def)

lemma promise_settled:
  "promise (settled i r ss ! k) =
     (if k = i \<and> i < length ss \<and> promise (ss ! i) = Pending then r else promise (ss ! k))"
  by (cases "k = i") (simp_all add: settled_def)

lemma settled_other: "k \<noteq> i \<Longrightarrow> settled i r ss ! k = ss ! k"
  by (simp add: settled_def)

lemma promise_set_ready:
  "promise ((ss[i := (ss ! i)\<lparr>readyState := r\<rparr>]) ! k) = promise (ss ! k)"
  by (cases "k = i"; cases "i < length ss") (simp_all add: list_update_beyond)

lemmas sock_simps = length_start_closing promise_start_closing length_settled promise_settled
  promise_set_ready nth_append

lemma step_promises:
  assumes "step s e = Some s'"
  shows "length (socks s) \<le> length (socks s')"
    and "i < length (socks s) \<Longrightarrow> promise (socks s ! i) \<noteq> Rejected \<Longrightarrow>
         promise (socks s' ! i) = Rejected \<Longrightarrow> e = SockError i \<and> reconnectAttempts s = 0"
    and "length (socks s) \<le> i \<Longrightarrow> i < length (socks s') \<Longrightarrow>
         promise (socks s' ! i) = Pending"
proof -
  have "length (socks s) \<le> length (socks s') \<and>
        (i < length (socks s) \<longrightarrow> promise (socks s ! i) \<noteq> Rejected \<longrightarrow>
           promise (socks s' ! i) = Rejected \<longrightarrow> e = SockError i \<and> reconnectAttempts s = 0) \<and>
        (length (socks s) \<le> i \<longrightarrow> i < length (socks s') \<longrightarrow>
           promise (socks s' ! i) = Pending)"
  proof (cases e)
    case (TimerFire k)
    with assms obtain t where s': "s' = run_callback (cb t) (rearm t s)"
      by (auto split: option.splits if_splits)
    show ?thesis unfolding s'
      by (cases "cb t")
         (auto simp: run_callback_eq rearm_eq connect_eq sock_simps split: option.splits if_splits)
  qed (use assms in \<open>auto simp: handler_eqs sock_simps split: option.splits if_splits\<close>)
  then show "length (socks s) \<le> length (socks s')"
    and "i < length (socks s) \<Longrightarrow> promise (socks s ! i) \<noteq> Rejected \<Longrightarrow>
         promise (socks s' ! i) = Rejected \<Longrightarrow> e = SockError i \<and> reconnectAttempts s = 0"
    and "length (socks s) \<le> i \<Longrightarrow> i < length (socks s') \<Longrightarrow>
         promise (socks s' ! i) = Pending"
    by blast+
qed

lemma step_setup_failed:
  assumes "step s e = Some s'" "(t, SetupFailed) \<in> set (since s s')"
  shows "\<not> url_accepted (builtins s)"
proof (cases e)
  case (TimerFire k)
  with assms obtain u where s': "s' = run_callback (cb u) (rearm u s)"
    by (auto split: option.splits if_splits)
  show ?thesis using assms(2) unfolding s'
    by (cases "cb u")
       (auto simp: run_callback_eq rearm_eq connect_eq since_def deliveries_def invocation_def
          split: option.splits if_splits)
qed (use assms in \<open>auto simp: handler_eqs since_def deliveries_def invocation_def
       split: option.splits if_splits sum.splits\<close>)

lemma no_socket_inv_step:
  assumes "step s e = Some s'" "no_socket_inv s"
  shows "no_socket_inv s'"
proof (cases e)
  case (TimerFire k)
  with assms obtain u where s': "s' = run_callback (cb u) (rearm u s)"
    by (auto split: option.splits if_splits)
  show ?thesis using assms(2) unfolding s'
    by (cases "cb u")
       (auto simp: no_socket_inv_def run_callback_eq rearm_eq connect_eq start_closing_def
          ready_of_def split: option.splits)
qed (use assms in \<open>auto simp: no_socket_inv_def handler_eqs ready_of_def start_closing_def
       split: option.splits if_splits\<close>)

lemma no_socket_inv_run: "run s evs = Some s' \<Longrightarrow> no_socket_inv s \<Longrightarrow> no_socket_inv s'"
proof (induction evs arbitrary: s)
  case Nil
  then show ?case by simp
next
  case (Cons e evs)
  then obtain s1 where s1: "step s e = Some s1" and r: "run s1 evs = Some s'"
    by (auto split: option.splits)
  show ?case by (rule Cons.IH [OF r no_socket_inv_step [OF s1 Cons.prems(2)]])
qed

lemma onerror_step:
  assumes "step s (SockError j) = Some s'"
  shows "emissions (since s s') = [(now s, ''error'', ErrorEv)]"
    and "s'\<lparr>socks := socks s, trace := trace s\<rparr> = s"
    and "i \<noteq> j \<Longrightarrow> socks s' ! i = socks s ! i"
    and "reconnectAttempts s \<noteq> 0 \<Longrightarrow> socks s' = socks s"
  using assms
  by (auto simp: onerror_eq since_def emissions_deliveries settled_other split: if_splits)

text \<open>
  Claim C3. Rejection of \<^verbatim>\<open>connect()\<close>'s promise. In every world reached from
  construction and for whatever happens next:
  the promise of an existing socket (the promise of the \<^verbatim>\<open>connect()\<close> call that made
  it) becomes rejected only by the error event of that very socket, and only when the
  reconnection counter is zero; a socket made in this step has a pending promise; when
  making the socket fails, the promise is rejected at once, and then too the counter is
  zero. An error event of socket \<open>j\<close> always emits \<^verbatim>\<open>error\<close>, leaves the service as it
  was apart from that promise and the trace, touches no other socket's promise, and
  while the counter is not zero (a retry) it rejects nothing.
\<close>

theorem connect_promise_rejects_only_on_first_attempt:
  assumes "run (constructor c p) pre = Some s" and "step s e = Some s'"
  shows "(\<forall>i. i < length (socks s) \<and> promise (socks s ! i) \<noteq> Rejected \<and>
              promise (socks s' ! i) = Rejected \<longrightarrow>
              e = SockError i \<and> reconnectAttempts s = 0) \<and>
         (\<forall>i. length (socks s) \<le> i \<and> i < length (socks s') \<longrightarrow>
              promise (socks s' ! i) = Pending) \<and>
         ((now s, SetupFailed) \<in> set (since s s') \<longrightarrow> reconnectAttempts s = 0) \<and>
         (\<forall>j. e = SockError j \<longrightarrow>
              emissions (since s s') = [(now s, ''error'', ErrorEv)] \<and>
              s'\<lparr>socks := socks s, trace := trace s\<rparr> = s \<and>
              (\<forall>i. i \<noteq> j \<longrightarrow> socks s' ! i = socks s ! i) \<and>
              (reconnectAttempts s \<noteq> 0 \<longrightarrow> socks s' = socks s))"
proof -
  have "no_socket_inv (constructor c p)"
    by (simp add: no_socket_inv_def constructor_def)
  then have inv: "no_socket_inv s"
    by (rule no_socket_inv_run [OF assms(1)])
  have sf: "reconnectAttempts s = 0" if "(now s, SetupFailed) \<in> set (since s s')"
    using step_setup_failed [OF assms(2) that] inv by (simp add: no_socket_inv_def)
  show ?thesis
    using step_promises(2,3) [OF assms(2)] sf onerror_step [of s _ s'] assms(2)
    by blast
qed


lemma run_append:
  "run s (xs @ ys) = (case run s xs of None \<Rightarrow> None | Some s1 \<Rightarrow> run s1 ys)"
  by (induction xs arbitrary: s) (simp_all split: option.splits)

text \<open>
  The first attempt fails: its error rejects the promise of the caller. The retry, three
  seconds later, fails too: its error is emitted and changes no promise.
\<close>

theorem connect_promise_rejects_only_on_first_attempt_witness:
  "run (constructor example_config example_platform) [Connect] = Some (world_after [Connect]) \<and>
   step (world_after [Connect]) (SockError 0) = Some (world_after [Connect, SockError 0]) \<and>
   reconnectAttempts (world_after [Connect]) = 0 \<and>
   map promise (socks (world_after [Connect])) = [Pending] \<and>
   map promise (socks (world_after [Connect, SockError 0])) = [Rejected] \<and>
   run (constructor example_config example_platform)
     [Connect, SockError 0, SockClose 0 1006 [], Advance 3000, TimerFire 2] =
     Some (world_after [Connect, SockError 0, SockClose 0 1006 [], Advance 3000, TimerFire 2]) \<and>
   step (world_after [Connect, SockError 0, SockClose 0 1006 [], Advance 3000, TimerFire 2])
     (SockError 1) =
     Some (world_after
       [Connect, SockError 0, SockClose 0 1006 [], Advance 3000, TimerFire 2, SockError 1]) \<and>
   reconnectAttempts
     (world_after [Connect, SockError 0, SockClose 0 1006 [], Advance 3000, TimerFire 2]) = 1 \<and>
   socks (world_after
       [Connect, SockError 0, SockClose 0 1006 [], Advance 3000, TimerFire 2, SockError 1]) =
     socks (world_after [Connect, SockError 0, SockClose 0 1006 [], Advance 3000, TimerFire 2]) \<and>
   emissions (since
       (world_after [Connect, SockError 0, SockClose 0 1006 [], Advance 3000, TimerFire 2])
       (world_after
          [Connect, SockError 0, SockClose 0 1006 [], Advance 3000, TimerFire 2, SockError 1])) =
     [(3000, ''error'', ErrorEv)]"
proof -
  let ?C = "constructor example_config example_platform"
  let ?pre = "[Connect, SockError 0, SockClose 0 1006 [], Advance 3000, TimerFire 2]"
  have "\<exists>a a'. run ?C [Connect] = Some a \<and> step a (SockError 0) = Some a' \<and>
          world_after [Connect] = a \<and> world_after [Connect, SockError 0] = a' \<and>
          reconnectAttempts a = 0 \<and> map promise (socks a) = [Pending] \<and>
          map promise (socks a') = [Rejected]"
    by (simp add: world_after_def eval_defs cong: Let_weak_cong prod.case_cong_weak)
  then obtain a a' where a: "run ?C [Connect] = Some a" and a': "step a (SockError 0) = Some a'"
    and wa: "world_after [Connect] = a" "world_after [Connect, SockError 0] = a'"
    and fa: "reconnectAttempts a = 0" "map promise (socks a) = [Pending]"
      "map promise (socks a') = [Rejected]"
    by (auto simp del: run.simps step.simps)
  have "\<exists>b b'. run ?C ?pre = Some b \<and> step b (SockError 1) = Some b' \<and>
          world_after ?pre = b \<and> world_after (?pre @ [SockError 1]) = b' \<and>
          reconnectAttempts b = 1 \<and> now b = 3000"
    by (simp add: world_after_def eval_defs without_def cong: Let_weak_cong prod.case_cong_weak)
  then obtain b b' where b: "run ?C ?pre = Some b" and b': "step b (SockError 1) = Some b'"
    and wb: "world_after ?pre = b" "world_after (?pre @ [SockError 1]) = b'"
    and fb: "reconnectAttempts b = 1" "now b = 3000"
    by (auto simp del: run.simps step.simps)
  note tb = connect_promise_rejects_only_on_first_attempt [OF b b']
  from tb fb have "socks b' = socks b \<and> emissions (since b b') = [(3000, ''error'', ErrorEv)]"
    by simp
  then show ?thesis
    using wa wb a a' b b' fa fb by (simp del: run.simps step.simps)
qed

subsection \<open>Bounded reconnection\<close>

lemma find_SomeD: "find P xs = Some x \<Longrightarrow> x \<in> set xs \<and> P x"
  by (induction xs) (auto split: if_splits)








lemma set_without: "set (without io ts) \<subseteq> set ts"
  by (cases io) (auto simp: without_def)

lemma in_withoutD: "t \<in> set (without io ts) \<Longrightarrow> t \<in> set ts \<and> io \<noteq> Some (tid t)"
  by (cases io) (auto simp: without_def)

lemma distinct_without: "distinct (map tid ts) \<Longrightarrow> distinct (map tid (without io ts))"
  by (cases io) (simp_all add: without_def distinct_map_filter)

lemma map_tid_rearmed:
  "map tid (map (\<lambda>u. if tid u = i then u\<lparr>due := d\<rparr> else u) ts) = map tid ts"
  by (induction ts) simp_all

lemma timers_ok_constructor: "timers_ok (constructor c p)"
  by (simp add: timers_ok_def constructor_def)

lemma tid_rearmed: "tid \<circ> (\<lambda>u. if tid u = i then u\<lparr>due := d\<rparr> else u) = tid"
  by (auto simp: fun_eq_iff)

lemma timers_ok_rearm: "timers_ok s \<Longrightarrow> timers_ok (rearm t s)"
  by (cases "every t")
     (auto simp: timers_ok_def rearm_eq distinct_map_filter tid_rearmed)

lemma timers_ok_trace: "timers_ok (s\<lparr>trace := tr\<rparr>) = timers_ok s"
  by (simp add: timers_ok_def)

lemma timers_ok_connect: "timers_ok s \<Longrightarrow> timers_ok (connect s)"
  by (simp add: timers_ok_def connect_eq)

lemma timers_ok_run_callback:
  assumes "timers_ok s"
  shows "timers_ok (run_callback c s)"
proof (cases c)
  case GraceExpired
  with assms show ?thesis by (simp add: run_callback_eq timers_ok_def)
next
  case ReconnectDue
  with assms show ?thesis by (simp add: run_callback_eq timers_ok_connect timers_ok_trace)
next
  case HeartbeatPing
  with assms show ?thesis by (simp add: run_callback_eq timers_ok_def)
qed

lemma timers_ok_onclose: "timers_ok s \<Longrightarrow> timers_ok (onclose code reason s)"
  unfolding timers_ok_def onclose_eq
  by (auto simp: distinct_without dest!: in_withoutD)

lemma timers_ok_onopen: "timers_ok s \<Longrightarrow> timers_ok (onopen i s)"
  unfolding timers_ok_def onopen_eq
  by (auto simp: distinct_without dest!: in_withoutD)

lemma timers_ok_disconnect: "timers_ok s \<Longrightarrow> timers_ok (disconnect s)"
  unfolding timers_ok_def disconnect_eq
  by (auto simp: distinct_without dest!: in_withoutD)

lemma timers_ok_step:
  assumes "step s e = Some s'" "timers_ok s"
  shows "timers_ok s'"
proof (cases e)
  case Connect
  with assms show ?thesis by (auto simp: timers_ok_connect)
next
  case Disconnect
  with assms show ?thesis by (auto simp: timers_ok_disconnect)
next
  case (TimerFire k)
  with assms obtain t where s': "s' = run_callback (cb t) (rearm t s)"
    by (auto split: option.splits if_splits)
  show ?thesis unfolding s'
    by (rule timers_ok_run_callback [OF timers_ok_rearm [OF assms(2)]])
next
  case (SockOpen i)
  with assms obtain s1 where "s' = onopen i s1" "timers_ok s1"
    by (auto simp: set_ready_def timers_ok_def split: if_splits)
  then show ?thesis by (simp add: timers_ok_onopen)
next
  case (SockClose i code reason)
  with assms obtain s1 where "s' = onclose code reason s1" "timers_ok s1"
    by (auto simp: set_ready_def timers_ok_def split: if_splits)
  then show ?thesis by (simp add: timers_ok_onclose)
qed (use assms in \<open>auto simp: timers_ok_def send_eq on_eq off_eq onmessage_eq onerror_eq
       split: option.splits if_splits\<close>)

lemma timers_ok_run: "run s evs = Some s' \<Longrightarrow> timers_ok s \<Longrightarrow> timers_ok s'"
proof (induction evs arbitrary: s)
  case Nil
  then show ?case by simp
next
  case (Cons e evs)
  then obtain s1 where s1: "step s e = Some s1" and r: "run s1 evs = Some s'"
    by (auto split: option.splits)
  show ?case by (rule Cons.IH [OF r timers_ok_step [OF s1 Cons.prems(2)]])
qed

lemma step_constants:
  assumes "step s e = Some s'"
  shows "maxReconnectAttempts s' = maxReconnectAttempts s \<and>
         reconnectInterval s' = reconnectInterval s \<and>
         gracePeriod s' = gracePeriod s \<and> now s \<le> now s'"
proof (cases e)
  case (TimerFire k)
  with assms obtain t where s': "s' = run_callback (cb t) (rearm t s)"
    by (auto split: option.splits if_splits)
  show ?thesis unfolding s'
    by (cases "cb t") (simp_all add: run_callback_eq rearm_eq connect_eq)
qed (use assms in \<open>auto simp: handler_eqs split: option.splits if_splits\<close>)

lemma run_constants:
  "run s evs = Some s' \<Longrightarrow>
     maxReconnectAttempts s' = maxReconnectAttempts s \<and>
     reconnectInterval s' = reconnectInterval s \<and>
     gracePeriod s' = gracePeriod s \<and> now s \<le> now s'"
proof (induction evs arbitrary: s)
  case Nil
  then show ?case by simp
next
  case (Cons e evs)
  then obtain s1 where s1: "step s e = Some s1" and r: "run s1 evs = Some s'"
    by (auto split: option.splits)
  from step_constants [OF s1] Cons.IH [OF r] show ?case by simp
qed


















subsection \<open>The grace period\<close>

lemma quietI:
  assumes "stableConnectionStatus s = ''connected''"
    and "\<And>t. t \<in> set (timers s) \<Longrightarrow> cb t = GraceExpired \<Longrightarrow> D \<le> due t"
    and "D \<le> now s + nat (gracePeriod s)"
  shows "quiet D s"
  using assms by (auto simp: quiet_def grace_pending_def list_all_iff)

lemma quietD:
  assumes "quiet D s"
  shows "stableConnectionStatus s = ''connected''"
    and "\<And>t. t \<in> set (timers s) \<Longrightarrow> cb t = GraceExpired \<Longrightarrow> D \<le> due t"
    and "D \<le> now s + nat (gracePeriod s)"
  using assms by (auto simp: quiet_def grace_pending_def list_all_iff)

lemma same_tid:
  assumes "timers_ok s" "x \<in> set (timers s)" "u \<in> set (timers s)" "tid x = tid u"
  shows "x = u"
proof -
  from assms(1) have "inj_on tid (set (timers s))"
    by (simp add: timers_ok_def distinct_map)
  with assms(2,3,4) show ?thesis by (auto dest: inj_onD)
qed

lemma quiet_step_unless_expiry:
  assumes "step s e = Some s'" "e \<noteq> Disconnect" "quiet D s"
    "\<And>k t. e = TimerFire k \<Longrightarrow> find (\<lambda>t. tid t = k) (timers s) = Some t \<Longrightarrow>
       cb t \<noteq> GraceExpired"
    "timers_ok s"
  shows "quiet D s' \<and> emitted ''stableStatusChange'' (since s s') = []"
proof -
  note q = quietD [OF assms(3)]
  have st: "stableConnectionStatus s' = ''connected''"
  proof (cases e)
    case (TimerFire k)
    with assms(1) obtain t where f: "find (\<lambda>t. tid t = k) (timers s) = Some t"
      and d: "due t \<le> now s"
      and s': "s' = run_callback (cb t) (rearm t s)"
      by (auto split: option.splits if_splits)
    from assms(4) [OF TimerFire f] have "cb t \<noteq> GraceExpired" .
    with q(1) show ?thesis unfolding s'
      by (cases "cb t") (auto simp: run_callback_eq rearm_eq connect_eq)
  qed (use assms(1,2) q(1) in \<open>auto simp: handler_eqs split: option.splits if_splits\<close>)
  with step_status [OF assms(1)] q(1)
  have em: "emitted ''stableStatusChange'' (since s s') = []" by simp
  note k = step_constants [OF assms(1)]
  have tm: "D \<le> due t" if "t \<in> set (timers s')" "cb t = GraceExpired" for t
  proof (cases e)
    case (TimerFire k)
    with assms(1) obtain u where f: "find (\<lambda>t. tid t = k) (timers s) = Some u"
      and d: "due u \<le> now s"
      and s': "s' = run_callback (cb u) (rearm u s)"
      by (auto split: option.splits if_splits)
    from find_SomeD [OF f] have mem: "u \<in> set (timers s)" by simp
    have "timers s' = timers (rearm u s)" unfolding s'
      by (cases "cb u") (auto simp: run_callback_eq connect_eq)
    with that have "t \<in> set (timers (rearm u s))" by simp
    then have "\<exists>v \<in> set (timers s). cb v = cb t \<and> due v \<le> due t"
    proof (cases "every u")
      case None
      assume "t \<in> set (timers (rearm u s))"
      with None have "t \<in> set (timers s)" by (simp add: rearm_eq)
      then show ?thesis by auto
    next
      case (Some a)
      assume "t \<in> set (timers (rearm u s))"
      with Some obtain x where x: "x \<in> set (timers s)"
        and t: "t = (if tid x = tid u then x\<lparr>due := now s + a\<rparr> else x)"
        by (auto simp: rearm_eq)
      show ?thesis
      proof (cases "tid x = tid u")
        case True
        from same_tid [OF assms(5) x mem True] have "x = u" .
        with t True d have "cb u = cb t \<and> due u \<le> due t" by simp
        with mem show ?thesis by blast
      next
        case False
        with t x show ?thesis by auto
      qed
    qed
    with q(2) that(2) show ?thesis by fastforce
  next
    case (SockOpen i)
    with assms(1) that q(2) show ?thesis
      by (auto simp: onopen_eq set_ready_def dest!: in_withoutD split: if_splits)
  next
    case (SockClose i code reason)
    with assms(1) that q(2,3) show ?thesis
      by (auto simp: onclose_eq set_ready_def dest!: in_withoutD split: if_splits)
  qed (use assms(1,2) that q(2) in \<open>auto simp: connect_eq send_eq on_eq off_eq onmessage_eq
         onerror_eq split: option.splits if_splits\<close>)
  from q(3) k have "D \<le> now s' + nat (gracePeriod s')" by simp
  from quietI [OF st tm this] em show ?thesis by simp
qed

lemma quiet_step:
  assumes "step s e = Some s'" "e \<noteq> Disconnect" "quiet D s" "now s' < D" "timers_ok s"
  shows "quiet D s' \<and> emitted ''stableStatusChange'' (since s s') = []"
proof (rule quiet_step_unless_expiry [OF assms(1,2,3) _ assms(5)])
  fix k t
  assume e: "e = TimerFire k" and f: "find (\<lambda>t. tid t = k) (timers s) = Some t"
  from find_SomeD [OF f] have mem: "t \<in> set (timers s)" by simp
  from assms(1) e f have "due t \<le> now s" by (auto split: if_splits)
  with step_constants [OF assms(1)] assms(4) have "due t < D" by simp
  with quietD(2) [OF assms(3) mem] show "cb t \<noteq> GraceExpired" by auto
qed

lemma quiet_run:
  assumes "run s evs = Some s'" "Disconnect \<notin> set evs" "quiet D s" "now s' < D" "timers_ok s"
  shows "quiet D s' \<and> emitted ''stableStatusChange'' (since s s') = []"
  using assms
proof (induction evs arbitrary: s)
  case Nil
  then show ?case by (simp add: since_def emitted_Nil)
next
  case (Cons e evs)
  then obtain s1 where s1: "step s e = Some s1" and r: "run s1 evs = Some s'"
    by (auto split: option.splits)
  from Cons.prems have ne: "e \<noteq> Disconnect" and nd: "Disconnect \<notin> set evs" by auto
  from run_constants [OF r] Cons.prems(4) have "now s1 < D" by simp
  note a = quiet_step [OF s1 ne Cons.prems(3) this Cons.prems(5)]
  from a have q1: "quiet D s1" by simp
  note b = Cons.IH [OF r nd q1 Cons.prems(4) timers_ok_step [OF s1 Cons.prems(5)]]
  have "since s s' = since s s1 @ since s1 s'"
    by (rule since_trans [OF step_trace [OF s1] run_trace [OF r]])
  with a b show ?case by (simp add: emitted_append)
qed

lemma grace_cleared:
  assumes "timers_ok s" "t \<in> set (without a (without b (timers s)))"
    "a = disconnectionTimer s \<or> b = disconnectionTimer s"
  shows "cb t \<noteq> GraceExpired"
proof
  assume g: "cb t = GraceExpired"
  from assms(2) have "t \<in> set (timers s)" "a \<noteq> Some (tid t)" "b \<noteq> Some (tid t)"
    by (auto dest!: in_withoutD)
  with assms(1,3) g show False by (auto simp: timers_ok_def)
qed

lemma grace_pending_onclose:
  assumes "timers_ok s"
  shows "grace_pending (onclose code reason s) =
           [\<lparr>tid = next_timer s, due = now s + nat (gracePeriod s), every = None,
             cb = GraceExpired\<rparr>]"
proof -
  have "filter (\<lambda>t. cb t = GraceExpired)
          (without (disconnectionTimer s) (without (pingInterval s) (timers s))) = []"
    using grace_cleared [OF assms] by (auto simp: filter_empty_conv)
  then show ?thesis
    by (simp add: grace_pending_def onclose_eq)
qed

lemma grace_pending_onopen:
  assumes "timers_ok s"
  shows "grace_pending (onopen i s) = []"
proof -
  have "filter (\<lambda>t. cb t = GraceExpired)
          (without (pingInterval s) (without (disconnectionTimer s) (timers s))) = []"
    using grace_cleared [OF assms] by (auto simp: filter_empty_conv)
  then show ?thesis
    by (simp add: grace_pending_def onopen_eq)
qed

lemma timers_ok_set_ready: "timers_ok (set_ready i r s) = timers_ok s"
  by (simp add: timers_ok_def set_ready_def)

lemma close_arms:
  assumes "step s0 (SockClose i code reason) = Some s1" "timers_ok s0"
    "stableConnectionStatus s0 = ''connected''"
  shows "grace_pending s1 =
           [\<lparr>tid = next_timer s0, due = now s0 + nat (gracePeriod s0), every = None,
             cb = GraceExpired\<rparr>]"
    and "quiet (now s0 + nat (gracePeriod s0)) s1"
    and "emitted ''stableStatusChange'' (since s0 s1) = []"
    and "disconnectionTimer s1 = Some (next_timer s0)"
proof -
  from assms(1) have s1: "s1 = onclose code reason (set_ready i CLOSED s0)"
    by (auto split: if_splits)
  have ok: "timers_ok (set_ready i CLOSED s0)"
    using assms(2) by (simp add: timers_ok_set_ready)
  from grace_pending_onclose [OF ok]
  show g: "grace_pending s1 =
           [\<lparr>tid = next_timer s0, due = now s0 + nat (gracePeriod s0), every = None,
             cb = GraceExpired\<rparr>]"
    unfolding s1 by (simp add: set_ready_def)
  have st: "stableConnectionStatus s1 = ''connected''"
    unfolding s1 using assms(3) by (simp add: onclose_eq set_ready_def)
  have c: "now s1 = now s0 \<and> gracePeriod s1 = gracePeriod s0"
    unfolding s1 by (simp add: onclose_eq set_ready_def)
  from g st c show "quiet (now s0 + nat (gracePeriod s0)) s1"
    by (simp add: quiet_def)
  from step_status [OF assms(1)] st assms(3)
  show "emitted ''stableStatusChange'' (since s0 s1) = []" by simp
  show "disconnectionTimer s1 = Some (next_timer s0)"
    unfolding s1 by (simp add: onclose_eq set_ready_def)
qed

text \<open>
  Claim C1, amended. No flicker. Take any world reached from construction in which the
  stable status is \<^verbatim>\<open>connected\<close>. A socket closes; then any events follow, of sockets,
  timers, time and the application, except a call of \<^verbatim>\<open>disconnect()\<close>; then a socket
  opens, at a time before the grace period has passed since the close. Then the close has
  started the grace timer, due one grace period after the close; no
  \<^verbatim>\<open>stableStatusChange\<close> is emitted from the close to the end of the open handler; the
  status is still \<^verbatim>\<open>connected\<close>; and the open has cancelled the grace timer.
\<close>

theorem reopen_within_grace_period_is_silent:
  assumes "run (constructor c p) pre = Some s0"
    and "stableConnectionStatus s0 = ''connected''"
    and "step s0 (SockClose i code reason) = Some s1"
    and "run s1 evs = Some s2"
    and "Disconnect \<notin> set evs"
    and "now s2 < now s0 + nat (gracePeriod s0)"
    and "step s2 (SockOpen j) = Some s3"
  shows "map due (grace_pending s1) = [now s0 + nat (gracePeriod s0)] \<and>
         emitted ''stableStatusChange'' (since s0 s3) = [] \<and>
         stableConnectionStatus s3 = ''connected'' \<and>
         grace_pending s3 = []"
proof -
  have ok0: "timers_ok s0"
    by (rule timers_ok_run [OF assms(1) timers_ok_constructor])
  have ok1: "timers_ok s1"
    by (rule timers_ok_step [OF assms(3) ok0])
  have ok2: "timers_ok s2"
    by (rule timers_ok_run [OF assms(4) ok1])
  note cl = close_arms [OF assms(3) ok0 assms(2)]
  note qr = quiet_run [OF assms(4,5) cl(2) assms(6) ok1]
  from qr have st2: "stableConnectionStatus s2 = ''connected''" by (simp add: quiet_def)
  from assms(7) have s3: "s3 = onopen j (set_ready j OPEN s2)"
    by (auto split: if_splits)
  have st3: "stableConnectionStatus s3 = ''connected''"
    unfolding s3 by (simp add: onopen_eq)
  from step_status [OF assms(7)] st2 st3
  have e3: "emitted ''stableStatusChange'' (since s2 s3) = []" by simp
  have g3: "grace_pending s3 = []"
    unfolding s3 by (rule grace_pending_onopen) (simp add: timers_ok_set_ready ok2)
  have "since s0 s2 = since s0 s1 @ since s1 s2"
    by (rule since_trans [OF step_trace [OF assms(3)] run_trace [OF assms(4)]])
  moreover have "trace s2 = trace s0 @ since s0 s2"
    using step_trace [OF assms(3)] run_trace [OF assms(4)] calculation by simp
  then have "since s0 s3 = since s0 s2 @ since s2 s3"
    by (rule since_trans [OF _ step_trace [OF assms(7)]])
  ultimately have "emitted ''stableStatusChange'' (since s0 s3) = []"
    using cl(3) qr e3 by (simp add: emitted_append)
  with cl(1) st3 g3 show ?thesis by simp
qed

lemma grace_pending_mem: "t \<in> set (grace_pending s) \<longleftrightarrow> t \<in> set (timers s) \<and> cb t = GraceExpired"
  by (auto simp: grace_pending_def)

lemma grace_pending_nonempty:
  "grace_pending s \<noteq> [] \<longleftrightarrow> (\<exists>t \<in> set (timers s). cb t = GraceExpired)"
  by (auto simp: grace_pending_def filter_empty_conv)

lemma expiry_emits:
  assumes "find (\<lambda>t. tid t = k) (timers s) = Some t" "cb t = GraceExpired"
    "step s (TimerFire k) = Some s'" "quiet D s"
  shows "stableConnectionStatus s' = ''disconnected'' \<and>
         emitted ''stableStatusChange'' (since s s') = [(now s, Value (JStr ''disconnected''))] \<and>
         D \<le> now s"
proof -
  from assms(1,3) have d: "due t \<le> now s" and s': "s' = run_callback (cb t) (rearm t s)"
    by (auto split: if_splits)
  from find_SomeD [OF assms(1)] have mem: "t \<in> set (timers s)" by simp
  from quietD(2) [OF assms(4) mem assms(2)] d have "D \<le> now s" by simp
  moreover have st: "stableConnectionStatus s' = ''disconnected''"
    unfolding s' assms(2) by (simp add: run_callback_eq)
  moreover from step_status [OF assms(3)] st quietD(1) [OF assms(4)]
  have "emitted ''stableStatusChange'' (since s s') = [(now s, Value (JStr ''disconnected''))]"
    by simp
  ultimately show ?thesis by simp
qed

lemma grace_survives:
  assumes "step s e = Some s'" "\<not> is_open e" "e \<noteq> Disconnect" "grace_pending s \<noteq> []"
    "\<And>k t. e = TimerFire k \<Longrightarrow> find (\<lambda>t. tid t = k) (timers s) = Some t \<Longrightarrow>
       cb t \<noteq> GraceExpired"
    "timers_ok s"
  shows "grace_pending s' \<noteq> []"
proof -
  from assms(4) obtain g where g: "g \<in> set (timers s)" "cb g = GraceExpired"
    by (auto simp: grace_pending_nonempty)
  show ?thesis
  proof (cases e)
    case (TimerFire k)
    with assms(1) obtain u where f: "find (\<lambda>t. tid t = k) (timers s) = Some u"
      and s': "s' = run_callback (cb u) (rearm u s)"
      by (auto split: option.splits if_splits)
    from find_SomeD [OF f] have mem: "u \<in> set (timers s)" by simp
    from assms(5) [OF TimerFire f] have nu: "cb u \<noteq> GraceExpired" .
    have ts: "timers s' = timers (rearm u s)" unfolding s'
      by (cases "cb u") (auto simp: run_callback_eq connect_eq)
    from g nu have "tid g \<noteq> tid u"
      using same_tid [OF assms(6) g(1) mem] by auto
    with g have "\<exists>t \<in> set (timers (rearm u s)). cb t = GraceExpired"
      by (cases "every u") (auto simp: rearm_eq intro!: bexI [of _ g])
    with ts show ?thesis by (simp add: grace_pending_nonempty)
  next
    case (SockOpen i)
    with assms(2) show ?thesis by (simp add: is_open_def)
  next
    case (SockClose i code reason)
    with assms(1) show ?thesis
      by (auto simp: grace_pending_def onclose_eq set_ready_def split: if_splits)
  qed (use assms(1,3) g in \<open>auto simp: grace_pending_nonempty connect_eq send_eq on_eq off_eq
         onmessage_eq onerror_eq split: option.splits if_splits\<close>)
qed

lemma stays_disconnected:
  assumes "step s e = Some s'" "\<not> is_open e" "stableConnectionStatus s = ''disconnected''"
  shows "stableConnectionStatus s' = ''disconnected'' \<and>
         emitted ''stableStatusChange'' (since s s') = []"
proof -
  have st: "stableConnectionStatus s' = ''disconnected''"
  proof (cases e)
    case (TimerFire k)
    with assms(1) obtain t where s': "s' = run_callback (cb t) (rearm t s)"
      by (auto split: option.splits if_splits)
    show ?thesis unfolding s' using assms(3)
      by (cases "cb t") (auto simp: run_callback_eq rearm_eq connect_eq)
  next
    case (SockOpen i)
    with assms(2) show ?thesis by (simp add: is_open_def)
  qed (use assms(1,3) in \<open>auto simp: handler_eqs split: option.splits if_splits\<close>)
  with step_status [OF assms(1)] assms(3) show ?thesis by simp
qed

lemma disconnected_run:
  assumes "run s evs = Some s'" "list_all (\<lambda>e. \<not> is_open e \<and> e \<noteq> Disconnect) evs"
    "stableConnectionStatus s = ''disconnected''"
  shows "stableConnectionStatus s' = ''disconnected'' \<and>
         emitted ''stableStatusChange'' (since s s') = []"
  using assms
proof (induction evs arbitrary: s)
  case Nil
  then show ?case by (simp add: since_def emitted_Nil)
next
  case (Cons e evs)
  then obtain s1 where s1: "step s e = Some s1" and r: "run s1 evs = Some s'"
    by (auto split: option.splits)
  from Cons.prems have ne: "\<not> is_open e"
    and nes: "list_all (\<lambda>e. \<not> is_open e \<and> e \<noteq> Disconnect) evs" by auto
  note a = stays_disconnected [OF s1 ne Cons.prems(3)]
  from a have d1: "stableConnectionStatus s1 = ''disconnected''" by simp
  note b = Cons.IH [OF r nes d1]
  have "since s s' = since s s1 @ since s1 s'"
    by (rule since_trans [OF step_trace [OF s1] run_trace [OF r]])
  with a b show ?case by (simp add: emitted_append)
qed

lemma armed_run:
  assumes "run s evs = Some s'" "list_all (\<lambda>e. \<not> is_open e \<and> e \<noteq> Disconnect) evs"
    "quiet D s" "grace_pending s \<noteq> []" "timers_ok s"
  shows "(quiet D s' \<and> grace_pending s' \<noteq> [] \<and>
          emitted ''stableStatusChange'' (since s s') = []) \<or>
         (stableConnectionStatus s' = ''disconnected'' \<and>
          (\<exists>t. D \<le> t \<and>
             emitted ''stableStatusChange'' (since s s') = [(t, Value (JStr ''disconnected''))]))"
  using assms
proof (induction evs arbitrary: s)
  case Nil
  then show ?case by (simp add: since_def emitted_Nil)
next
  case (Cons e evs)
  then obtain s1 where s1: "step s e = Some s1" and r: "run s1 evs = Some s'"
    by (auto split: option.splits)
  from Cons.prems have ne: "\<not> is_open e" and nd: "e \<noteq> Disconnect"
    and nes: "list_all (\<lambda>e. \<not> is_open e \<and> e \<noteq> Disconnect) evs" by auto
  have sp: "since s s' = since s s1 @ since s1 s'"
    by (rule since_trans [OF step_trace [OF s1] run_trace [OF r]])
  show ?case
  proof (cases "\<exists>k t. e = TimerFire k \<and> find (\<lambda>t. tid t = k) (timers s) = Some t \<and>
                  cb t = GraceExpired")
    case True
    then obtain k t where e: "e = TimerFire k"
      and f: "find (\<lambda>t. tid t = k) (timers s) = Some t" and g: "cb t = GraceExpired"
      by blast
    from s1 e have "step s (TimerFire k) = Some s1" by simp
    note x = expiry_emits [OF f g this Cons.prems(3)]
    from x have d1: "stableConnectionStatus s1 = ''disconnected''" by simp
    note y = disconnected_run [OF r nes d1]
    from x y sp show ?thesis by (auto simp: emitted_append)
  next
    case False
    then have ng: "\<And>k t. e = TimerFire k \<Longrightarrow> find (\<lambda>t. tid t = k) (timers s) = Some t \<Longrightarrow>
       cb t \<noteq> GraceExpired" by blast
    note a = quiet_step_unless_expiry [OF s1 nd Cons.prems(3) ng Cons.prems(5)]
    note g = grace_survives [OF s1 ne nd Cons.prems(4) ng Cons.prems(5)]
    from a have q1: "quiet D s1" by simp
    note b = Cons.IH [OF r nes q1 g timers_ok_step [OF s1 Cons.prems(5)]]
    from a b sp show ?thesis by (auto simp: emitted_append)
  qed
qed

text \<open>
  Claim C2, amended. Take any world reached from construction in which the stable status
  is \<^verbatim>\<open>connected\<close>. A socket closes; then any events follow, except a socket opening
  and a call of \<^verbatim>\<open>disconnect()\<close>. Then, at every moment of the episode, one of two holds.
  Either nothing has been emitted yet, the status is still \<^verbatim>\<open>connected\<close>, and a grace
  timer is pending, not due before one grace period after the close, whose expiry emits
  \<^verbatim>\<open>stableStatusChange\<close> with \<^verbatim>\<open>disconnected\<close> (so it is still to come, once). Or
  exactly one \<^verbatim>\<open>stableStatusChange\<close> has been emitted since the close, its payload is
  \<^verbatim>\<open>disconnected\<close>, and its time is at least one grace period after the close.
\<close>

theorem grace_period_expiry_fires_once:
  assumes "run (constructor c p) pre = Some s0"
    and "stableConnectionStatus s0 = ''connected''"
    and "step s0 (SockClose i code reason) = Some s1"
    and "run s1 evs = Some s2"
    and "list_all (\<lambda>e. \<not> is_open e \<and> e \<noteq> Disconnect) evs"
  shows "(emitted ''stableStatusChange'' (since s0 s2) = [] \<and>
          stableConnectionStatus s2 = ''connected'' \<and>
          grace_pending s2 \<noteq> [] \<and>
          list_all (\<lambda>t. now s0 + nat (gracePeriod s0) \<le> due t) (grace_pending s2) \<and>
          (\<forall>t s3. t \<in> set (grace_pending s2) \<and> step s2 (TimerFire (tid t)) = Some s3 \<longrightarrow>
             emitted ''stableStatusChange'' (since s2 s3) =
               [(now s2, Value (JStr ''disconnected''))] \<and>
             now s0 + nat (gracePeriod s0) \<le> now s2)) \<or>
         (stableConnectionStatus s2 = ''disconnected'' \<and>
          (\<exists>t. now s0 + nat (gracePeriod s0) \<le> t \<and>
             emitted ''stableStatusChange'' (since s0 s2) =
               [(t, Value (JStr ''disconnected''))]))"
proof -
  let ?D = "now s0 + nat (gracePeriod s0)"
  have ok0: "timers_ok s0"
    by (rule timers_ok_run [OF assms(1) timers_ok_constructor])
  have ok1: "timers_ok s1"
    by (rule timers_ok_step [OF assms(3) ok0])
  have ok2: "timers_ok s2"
    by (rule timers_ok_run [OF assms(4) ok1])
  note cl = close_arms [OF assms(3) ok0 assms(2)]
  from cl(1) have ne1: "grace_pending s1 \<noteq> []" by simp
  note ar = armed_run [OF assms(4,5) cl(2) ne1 ok1]
  have sp: "since s0 s2 = since s0 s1 @ since s1 s2"
    by (rule since_trans [OF step_trace [OF assms(3)] run_trace [OF assms(4)]])
  from ar show ?thesis
  proof
    assume a: "quiet ?D s2 \<and> grace_pending s2 \<noteq> [] \<and>
               emitted ''stableStatusChange'' (since s1 s2) = []"
    then have q2: "quiet ?D s2" by simp
    have fire: "emitted ''stableStatusChange'' (since s2 s3) =
               [(now s2, Value (JStr ''disconnected''))] \<and> ?D \<le> now s2"
      if "t \<in> set (grace_pending s2)" "step s2 (TimerFire (tid t)) = Some s3" for t s3
    proof -
      from that(1) have mem: "t \<in> set (timers s2)" and g: "cb t = GraceExpired"
        by (simp_all add: grace_pending_mem)
      from that(2) obtain u where f: "find (\<lambda>x. tid x = tid t) (timers s2) = Some u"
        by (auto split: option.splits)
      from find_SomeD [OF f] have "u \<in> set (timers s2)" "tid u = tid t" by simp_all
      from same_tid [OF ok2 this(1) mem this(2)] have "u = t" .
      with f have f': "find (\<lambda>x. tid x = tid t) (timers s2) = Some t" by simp
      from expiry_emits [OF f' g that(2) q2] show ?thesis by simp
    qed
    from a cl(3) sp have "emitted ''stableStatusChange'' (since s0 s2) = []"
      by (simp add: emitted_append)
    with a q2 fire show ?thesis
      by (simp add: quiet_def) blast
  next
    assume b: "stableConnectionStatus s2 = ''disconnected'' \<and>
          (\<exists>t. ?D \<le> t \<and>
             emitted ''stableStatusChange'' (since s1 s2) = [(t, Value (JStr ''disconnected''))])"
    with cl(3) sp show ?thesis by (auto simp: emitted_append)
  qed
qed

subsection \<open>The grace period on concrete runs\<close>

text \<open>
  Claim C1 as it was stated has no condition on the status at the close. On a new
  service the stable status is \<^verbatim>\<open>disconnected\<close>. The first attempt fails (the socket
  closes at time 0) and the retry opens at time 3000, within the grace period of 10000:
  the open emits \<^verbatim>\<open>stableStatusChange\<close> with \<^verbatim>\<open>connected\<close> in that episode.
\<close>

theorem first_open_changes_status_counterexample:
  "stableConnectionStatus (world_after [Connect]) = ''disconnected'' \<and>
   gracePeriod (world_after [Connect]) = 10000 \<and>
   observe (emitted ''stableStatusChange'') (world_after [Connect])
     [SockClose 0 1006 [], Advance 3000, TimerFire 2, SockOpen 1] =
     Some [(3000, Value (JStr ''connected''))]"
  by (simp add: world_after_def observe_def eval_defs since_def emitted_simps
        cong: Let_weak_cong prod.case_cong_weak)

text \<open>
  An open connection drops at time 0; the reconnection of time 3000 opens at time 4000.
  Nothing is emitted, and no grace timer is left.
\<close>

theorem reopen_within_grace_period_is_silent_witness:
  "stableConnectionStatus (world_after [Connect, SockOpen 0]) = ''connected'' \<and>
   Disconnect \<notin> set [Advance 3000, TimerFire 3, Advance 1000] \<and>
   (4000::nat) < 0 + nat 10000 \<and>
   observe (emitted ''stableStatusChange'') (world_after [Connect, SockOpen 0])
     [SockClose 0 1006 [], Advance 3000, TimerFire 3, Advance 1000, SockOpen 1] = Some [] \<and>
   map_option grace_pending
     (run (world_after [Connect, SockOpen 0])
        [SockClose 0 1006 [], Advance 3000, TimerFire 3, Advance 1000, SockOpen 1]) = Some []"
proof -
  let ?C = "constructor example_config example_platform"
  let ?pre = "[Connect, SockOpen 0]"
  let ?evs = "[Advance 3000, TimerFire 3, Advance 1000]"
  have "\<exists>s0 s1 s2 s3. run ?C ?pre = Some s0 \<and> step s0 (SockClose 0 1006 []) = Some s1 \<and>
          run s1 ?evs = Some s2 \<and> step s2 (SockOpen 1) = Some s3 \<and>
          run s0 (SockClose 0 1006 [] # ?evs @ [SockOpen 1]) = Some s3 \<and>
          world_after ?pre = s0 \<and> stableConnectionStatus s0 = ''connected'' \<and>
          now s0 = 0 \<and> gracePeriod s0 = 10000 \<and> now s2 = 4000"
    by (simp add: world_after_def eval_defs cong: Let_weak_cong prod.case_cong_weak)
  then obtain s0 s1 s2 s3 where r0: "run ?C ?pre = Some s0"
    and cl: "step s0 (SockClose 0 1006 []) = Some s1"
    and mid: "run s1 ?evs = Some s2"
    and opn: "step s2 (SockOpen 1) = Some s3"
    and full: "run s0 (SockClose 0 1006 [] # ?evs @ [SockOpen 1]) = Some s3"
    and w: "world_after ?pre = s0"
    and conn: "stableConnectionStatus s0 = ''connected''"
    and f: "now s0 = 0" "gracePeriod s0 = 10000" "now s2 = 4000"
    by (auto simp del: run.simps step.simps)
  have nd: "Disconnect \<notin> set ?evs" by simp
  from f have intime: "now s2 < now s0 + nat (gracePeriod s0)" by simp
  note t = reopen_within_grace_period_is_silent [OF r0 conn cl mid nd intime opn]
  from t have "emitted ''stableStatusChange'' (since s0 s3) = [] \<and> grace_pending s3 = []"
    by simp
  with full have "observe (emitted ''stableStatusChange'') s0
      (SockClose 0 1006 [] # ?evs @ [SockOpen 1]) = Some [] \<and>
      map_option grace_pending (run s0 (SockClose 0 1006 [] # ?evs @ [SockOpen 1])) = Some []"
    by (simp add: observe_def del: run.simps step.simps)
  with w conn show ?thesis by (simp del: run.simps step.simps)
qed

text \<open>
  An open connection drops at time 0 and the backend stays down. The retry of time 3000
  fails, which starts the grace timer again; it expires at 13000 and the status change is
  emitted then. A later retry fails too and its grace timer expires at 26000, without a
  second status change.
\<close>

theorem grace_period_expiry_fires_once_witness:
  "stableConnectionStatus (world_after [Connect, SockOpen 0]) = ''connected'' \<and>
   now (world_after [Connect, SockOpen 0]) + nat (gracePeriod (world_after [Connect, SockOpen 0]))
     = 10000 \<and>
   list_all (\<lambda>e. \<not> is_open e \<and> e \<noteq> Disconnect)
     [Advance 3000, TimerFire 3, SockClose 1 1006 [], Advance 10000, TimerFire 4,
      Advance 3000, TimerFire 5, SockClose 2 1006 [], Advance 10000, TimerFire 6] \<and>
   observe (emitted ''stableStatusChange'') (world_after [Connect, SockOpen 0])
     [SockClose 0 1006 [],
      Advance 3000, TimerFire 3, SockClose 1 1006 [], Advance 10000, TimerFire 4,
      Advance 3000, TimerFire 5, SockClose 2 1006 [], Advance 10000, TimerFire 6] =
     Some [(13000, Value (JStr ''disconnected''))]"
proof -
  let ?C = "constructor example_config example_platform"
  let ?pre = "[Connect, SockOpen 0]"
  let ?evs = "[Advance 3000, TimerFire 3, SockClose 1 1006 [], Advance 10000, TimerFire 4,
      Advance 3000, TimerFire 5, SockClose 2 1006 [], Advance 10000, TimerFire 6]"
  have "\<exists>s0 s1 s2. run ?C ?pre = Some s0 \<and> step s0 (SockClose 0 1006 []) = Some s1 \<and>
          run s1 ?evs = Some s2 \<and>
          run s0 (SockClose 0 1006 [] # ?evs) = Some s2 \<and>
          world_after ?pre = s0 \<and> stableConnectionStatus s0 = ''connected'' \<and>
          now s0 = 0 \<and> gracePeriod s0 = 10000 \<and>
          emitted ''stableStatusChange'' (since s0 s2) = [(13000, Value (JStr ''disconnected''))]"
    by (simp add: world_after_def eval_defs since_def emitted_simps
          cong: Let_weak_cong prod.case_cong_weak)
  then obtain s0 s1 s2 where r0: "run ?C ?pre = Some s0"
    and cl: "step s0 (SockClose 0 1006 []) = Some s1"
    and mid: "run s1 ?evs = Some s2"
    and full: "run s0 (SockClose 0 1006 [] # ?evs) = Some s2"
    and w: "world_after ?pre = s0"
    and conn: "stableConnectionStatus s0 = ''connected''"
    and f: "now s0 = 0" "gracePeriod s0 = 10000"
    and e: "emitted ''stableStatusChange'' (since s0 s2) =
              [(13000, Value (JStr ''disconnected''))]"
    by (auto simp del: run.simps step.simps)
  have ev: "list_all (\<lambda>e. \<not> is_open e \<and> e \<noteq> Disconnect) ?evs"
    by (simp add: is_open_def)
  note t = grace_period_expiry_fires_once [OF r0 conn cl mid ev]
  from t e f have "\<exists>t. 10000 \<le> t \<and>
      emitted ''stableStatusChange'' (since s0 s2) = [(t, Value (JStr ''disconnected''))]"
    by auto
  with e full have "observe (emitted ''stableStatusChange'') s0 (SockClose 0 1006 [] # ?evs) =
      Some [(13000, Value (JStr ''disconnected''))]"
    by (simp add: observe_def del: run.simps step.simps)
  with w conn f ev show ?thesis by (simp del: run.simps step.simps)
qed

text \<open>
  Claim C2 as it was stated lets nothing but the expiry of the grace period emit the
  change. \<^verbatim>\<open>disconnect()\<close> sets the stable status at once: an open connection drops
  at time 0, the application disconnects at time 1000, and \<^verbatim>\<open>stableStatusChange\<close>
  with \<^verbatim>\<open>disconnected\<close> is emitted then, nine seconds before the grace period of
  10000 has passed.
\<close>

theorem manual_disconnect_fires_early_counterexample:
  "stableConnectionStatus (world_after [Connect, SockOpen 0]) = ''connected'' \<and>
   gracePeriod (world_after [Connect, SockOpen 0]) = 10000 \<and>
   observe (emitted ''stableStatusChange'') (world_after [Connect, SockOpen 0])
     [SockClose 0 1006 [], Advance 1000, Disconnect] =
     Some [(1000, Value (JStr ''disconnected''))]"
  by (simp add: world_after_def observe_def eval_defs since_def emitted_simps
        cong: Let_weak_cong prod.case_cong_weak)

end
